theory Spec2Isabelle
  imports Complex_Main "HOL-Library.Monad_Syntax"
begin

section \<open>Host values: numbers, strings, regular expressions\<close>

text \<open>
  The program is TypeScript. Its numbers are IEEE doubles; they are modelled by the
  special values and the exact rationals: the rounding of double arithmetic (which is
  the identity on integers below \<open>2 ^ 53\<close>) is not modelled. Strings are lists of
  code units below 256 (\<^typ>\<open>char\<close>).
\<close>

datatype jsnum = NaN | PInf | NInf | Fin rat

fun js_neg :: "jsnum \<Rightarrow> jsnum" where
  "js_neg NaN = NaN"
| "js_neg PInf = NInf"
| "js_neg NInf = PInf"
| "js_neg (Fin a) = Fin (- a)"

fun js_add :: "jsnum \<Rightarrow> jsnum \<Rightarrow> jsnum" where
  "js_add NaN _ = NaN"
| "js_add _ NaN = NaN"
| "js_add PInf NInf = NaN"
| "js_add NInf PInf = NaN"
| "js_add PInf _ = PInf"
| "js_add _ PInf = PInf"
| "js_add NInf _ = NInf"
| "js_add _ NInf = NInf"
| "js_add (Fin a) (Fin b) = Fin (a + b)"

definition js_sub :: "jsnum \<Rightarrow> jsnum \<Rightarrow> jsnum" where
  "js_sub a b = js_add a (js_neg b)"

fun js_sgn :: "jsnum \<Rightarrow> int" where
  "js_sgn NaN = 0"
| "js_sgn PInf = 1"
| "js_sgn NInf = - 1"
| "js_sgn (Fin a) = (if a < 0 then - 1 else if a = 0 then 0 else 1)"

fun js_mul :: "jsnum \<Rightarrow> jsnum \<Rightarrow> jsnum" where
  "js_mul NaN _ = NaN"
| "js_mul _ NaN = NaN"
| "js_mul (Fin a) (Fin b) = Fin (a * b)"
| "js_mul a b =
     (if js_sgn a * js_sgn b = 0 then NaN else if js_sgn a * js_sgn b < 0 then NInf else PInf)"

fun js_lt :: "jsnum \<Rightarrow> jsnum \<Rightarrow> bool" where
  "js_lt NaN _ = False"
| "js_lt _ NaN = False"
| "js_lt (Fin a) (Fin b) = (a < b)"
| "js_lt NInf b = (b \<noteq> NInf)"
| "js_lt a PInf = (a \<noteq> PInf)"
| "js_lt _ _ = False"

fun js_floor :: "jsnum \<Rightarrow> jsnum" where
  "js_floor (Fin a) = Fin (of_int \<lfloor>a\<rfloor>)"
| "js_floor a = a"

definition js_isNaN :: "jsnum \<Rightarrow> bool" where
  "js_isNaN a = (a = NaN)"

text \<open>\<open>Math.min(...xs)\<close> for a non-empty argument list.\<close>

fun js_min2 :: "jsnum \<Rightarrow> jsnum \<Rightarrow> jsnum" where
  "js_min2 NaN _ = NaN"
| "js_min2 _ NaN = NaN"
| "js_min2 a b = (if js_lt b a then b else a)"

definition js_Math_min :: "jsnum list \<Rightarrow> jsnum" where
  "js_Math_min xs = foldl js_min2 PInf xs"

subsection \<open>Strings\<close>

text \<open>
  White space and line terminators of ECMAScript among the code units below 256: TAB,
  LF, VT, FF, CR, SP and NBSP. Both \<open>String.prototype.trim\<close> and the class \<open>\s\<close>
  use this set.
\<close>

definition is_space :: "char \<Rightarrow> bool" where
  "is_space c = (c \<in> set [CHR 0x09, CHR 0x0A, CHR 0x0B, CHR 0x0C, CHR 0x0D, CHR 0x20, CHR 0xA0])"

definition is_digit :: "char \<Rightarrow> bool" where
  "is_digit c = (c \<in> set ''0123456789'')"

definition trim :: "string \<Rightarrow> string" where
  "trim s = rev (dropWhile is_space (rev (dropWhile is_space s)))"

text \<open>A string is truthy when it is not empty; \<open>a || b\<close> on optional strings.\<close>

fun truthy_str :: "string option \<Rightarrow> bool" where
  "truthy_str None = False"
| "truthy_str (Some s) = (s \<noteq> [])"

definition str_or :: "string option \<Rightarrow> string option \<Rightarrow> string option" where
  "str_or a b = (if truthy_str a then a else b)"

definition str_or_default :: "string option \<Rightarrow> string \<Rightarrow> string" where
  "str_or_default a d = (case a of Some s \<Rightarrow> (if s \<noteq> [] then s else d) | None \<Rightarrow> d)"

text \<open>\<open>s.split(c)\<close> for a one-character separator.\<close>

fun split_char :: "char \<Rightarrow> string \<Rightarrow> string list" where
  "split_char c [] = [[]]"
| "split_char c (x # xs) =
     (if x = c then [] # split_char c xs
      else (case split_char c xs of p # ps \<Rightarrow> (x # p) # ps | [] \<Rightarrow> [[x]]))"

text \<open>\<open>xs.join(sep)\<close>.\<close>

fun join :: "string \<Rightarrow> string list \<Rightarrow> string" where
  "join sep [] = []"
| "join sep [x] = x"
| "join sep (x # y # ys) = x @ sep @ join sep (y # ys)"

text \<open>\<open>s.padStart(n, c)\<close> for a one-character filler.\<close>

definition padStart :: "nat \<Rightarrow> char \<Rightarrow> string \<Rightarrow> string" where
  "padStart n c s = replicate (n - length s) c @ s"

subsection \<open>Regular expressions\<close>

text \<open>
  A backtracking matcher with the priorities of ECMAScript: a state is the position,
  the rest of the input and the captures (latest first); running an expression gives
  the states it can end in, in the order in which backtracking tries them, so that the
  head of the list is the match the host reports. \<open>Rep lo hi r\<close> is the greedy
  quantifier \<open>r{lo,hi}\<close>, unbounded when \<open>hi\<close> is \<open>None\<close>; once \<open>lo\<close>
  rounds are done, a round that consumes nothing is rejected.
\<close>

datatype rx =
    Cls "char \<Rightarrow> bool"
  | Cat rx rx
  | Alt rx rx
  | Rep nat "nat option" rx
  | Grp nat rx
  | Bol
  | Eol
  | Emp

type_synonym rx_state = "nat \<times> string \<times> (nat \<times> string) list"

fun rx_rep :: "(rx_state \<Rightarrow> rx_state list) \<Rightarrow> nat \<Rightarrow> nat \<Rightarrow> rx_state \<Rightarrow> rx_state list" where
  "rx_rep f lo 0 st = (if lo = 0 then [st] else [])"
| "rx_rep f lo (Suc n) st =
     concat (map (rx_rep f (lo - 1) n) (filter (\<lambda>st'. 0 < lo \<or> fst st' \<noteq> fst st) (f st)))
     @ (if lo = 0 then [st] else [])"

fun rx_run :: "rx \<Rightarrow> rx_state \<Rightarrow> rx_state list" where
  "rx_run (Cls p) (i, s, c) =
     (case s of [] \<Rightarrow> [] | x # xs \<Rightarrow> if p x then [(Suc i, xs, c)] else [])"
| "rx_run (Cat a b) st = concat (map (rx_run b) (rx_run a st))"
| "rx_run (Alt a b) st = rx_run a st @ rx_run b st"
| "rx_run (Rep lo hi r) (i, s, c) =
     rx_rep (\<lambda>st. rx_run r st) lo (case hi of None \<Rightarrow> lo + length s | Some h \<Rightarrow> h) (i, s, c)"
| "rx_run (Grp k r) (i, s, c) =
     map (\<lambda>(j, s', c'). (j, s', (k, take (j - i) s) # c')) (rx_run r (i, s, c))"
| "rx_run Bol (i, s, c) = (if i = 0 then [(i, s, c)] else [])"
| "rx_run Eol (i, s, c) = (if s = [] then [(i, s, c)] else [])"
| "rx_run Emp st = [st]"

text \<open>
  \<open>s.match(r)\<close> and \<open>r.exec(s)\<close> for an expression without the global flag: the
  first start position with a match, and the captures of the match the matcher
  prefers there.
\<close>

fun rx_search :: "rx \<Rightarrow> nat \<Rightarrow> string \<Rightarrow> (nat \<times> rx_state) option" where
  "rx_search r i [] = (case rx_run r (i, [], []) of st # _ \<Rightarrow> Some (i, st) | [] \<Rightarrow> None)"
| "rx_search r i (x # xs) =
     (case rx_run r (i, x # xs, []) of st # _ \<Rightarrow> Some (i, st)
      | [] \<Rightarrow> rx_search r (Suc i) xs)"

definition rx_match :: "rx \<Rightarrow> string \<Rightarrow> (nat \<rightharpoonup> string) option" where
  "rx_match r s = map_option (\<lambda>(_, _, _, c). map_of c) (rx_search r 0 s)"

definition rx_test :: "rx \<Rightarrow> string \<Rightarrow> bool" where
  "rx_test r s = (rx_search r 0 s \<noteq> None)"

text \<open>
  \<open>s.split(r)\<close> for an expression without capture groups: \<open>q\<close> is the position
  tried, \<open>acc\<close> the piece read since the last separator (reversed).
\<close>

function rx_split_go :: "rx \<Rightarrow> nat \<Rightarrow> string \<Rightarrow> string \<Rightarrow> string list" where
  "rx_split_go r q acc [] = [rev acc]"
| "rx_split_go r q acc (x # xs) =
     (case rx_run r (q, x # xs, []) of
        [] \<Rightarrow> rx_split_go r (Suc q) (x # acc) xs
      | (e, _) # _ \<Rightarrow>
          if e \<le> q then
            (if acc = [] then rx_split_go r (Suc q) [x] xs
             else rev acc # rx_split_go r (Suc q) [x] xs)
          else rev acc # rx_split_go r e [] (drop (e - q) (x # xs)))"
  by pat_completeness auto
termination
  by (relation "measure (\<lambda>(r, q, acc, s). length s)") auto

definition rx_split :: "rx \<Rightarrow> string \<Rightarrow> string list" where
  "rx_split r s =
     (if s = [] then (if rx_run r (0, [], []) = [] then [[]] else [])
      else rx_split_go r 0 [] s)"

text \<open>Building blocks of the patterns.\<close>

definition rx_ch :: "char \<Rightarrow> rx" where
  "rx_ch c = Cls (\<lambda>x. x = c)"

definition rx_seq :: "rx list \<Rightarrow> rx" where
  "rx_seq rs = foldr Cat rs Emp"

definition rx_opt :: "rx \<Rightarrow> rx" where
  "rx_opt r = Rep 0 (Some 1) r"

definition rx_star :: "rx \<Rightarrow> rx" where
  "rx_star r = Rep 0 None r"

definition rx_plus :: "rx \<Rightarrow> rx" where
  "rx_plus r = Rep 1 None r"

definition rx_digit :: rx where
  "rx_digit = Cls is_digit"

definition rx_space :: rx where
  "rx_space = Cls is_space"

text \<open>\<open>.\<close> without the \<open>s\<close> flag excludes the line terminators; with it, any unit.\<close>

definition rx_dot :: rx where
  "rx_dot = Cls (\<lambda>c. c \<noteq> CHR 0x0A \<and> c \<noteq> CHR 0x0D)"

definition rx_dot_all :: rx where
  "rx_dot_all = Cls (\<lambda>c. True)"

text \<open>A letter under the \<open>i\<close> flag matches both of its cases.\<close>

definition rx_ch_i :: "char \<Rightarrow> char \<Rightarrow> rx" where
  "rx_ch_i u l = Cls (\<lambda>x. x = u \<or> x = l)"

section \<open>Data model\<close>

text \<open>
  A payload of type \<open>unknown\<close> is a JSON value (the body of a request, decoded) or
  a string. An object is the list of its members, under distinct keys.
\<close>

datatype json =
    JNull
  | JBool bool
  | JNum jsnum
  | JStr string
  | JArr "json list"
  | JObj "(string \<times> json) list"

text \<open>
  What the program asks of its host and does not define: the \<open>Date\<close> constructor
  followed by \<open>getTime()\<close> (\<open>None\<close> for an invalid date; the formats accepted
  beyond ISO 8601 and the time zone are the host's), \<open>Number(s)\<close>,
  \<open>parseFloat(s)\<close>, \<open>parseInt(s, 10)\<close> and the conversion of a number to a
  string. Every parser takes the host as a parameter.
\<close>

record host =
  date_parse :: "string \<Rightarrow> int option"
  to_number :: "string \<Rightarrow> jsnum"
  parse_float :: "string \<Rightarrow> jsnum"
  parse_int :: "string \<Rightarrow> jsnum"
  num_to_string :: "jsnum \<Rightarrow> string"

text \<open>The types of \<open>types.ts\<close>. A field named \<open>text\<close> in the source is
  \<open>turn_text\<close>, \<open>e_text\<close>, \<open>m_text\<close> here, and the fields of the input types
  carry the prefix of their type.\<close>

record JsonTranscriptEntry =
  e_speaker :: "string option"
  e_timestamp :: "string option"
  e_start :: "jsnum option"
  e_end :: "jsnum option"
  e_text :: string

record JsonTranscriptInput =
  jt_title :: "string option"
  entries :: "JsonTranscriptEntry list"

record ChatLogMessage =
  m_user :: "string option"
  m_username :: "string option"
  m_author :: "string option"
  m_sender :: "string option"
  m_timestamp :: "string option"
  m_ts :: "string option"
  m_date :: "string option"
  m_time :: "string option"
  m_text :: "string option"
  m_message :: "string option"
  m_content :: "string option"

record ChatLogInput =
  cl_title :: "string option"
  cl_channel :: "string option"
  messages :: "ChatLogMessage list"

record NormalizedTurn =
  speaker :: string
  turn_text :: string
  startMs :: "jsnum option"
  endMs :: "jsnum option"
  turnIndex :: nat
  metadata :: "(string \<times> json) list"

record NormalizedConversation =
  title :: string
  source :: string
  turns :: "NormalizedTurn list"
  conv_metadata :: "(string \<times> json) list"

datatype InputFormat = JsonTranscript | ChatLog | WhatsApp | Srt | Unknown

datatype ParseResult =
    Success NormalizedConversation InputFormat
  | Failure string InputFormat

text \<open>\<open>xs.map((x, index) => f(x, index))\<close>.\<close>

definition map_index :: "('a \<Rightarrow> nat \<Rightarrow> 'b) \<Rightarrow> 'a list \<Rightarrow> 'b list" where
  "map_index f xs = map (\<lambda>(x, i). f x i) (zip xs [0..<length xs])"

text \<open>\<open>text.split(/\r?\n/).filter((line) => line.trim())\<close>.\<close>

definition rx_newline :: rx where
  "rx_newline = rx_seq [rx_opt (rx_ch CHR 0x0D), rx_ch CHR 0x0A]"

definition nonblank_lines :: "string \<Rightarrow> string list" where
  "nonblank_lines s = filter (\<lambda>line. trim line \<noteq> []) (rx_split rx_newline s)"

section \<open>WhatsApp text exports\<close>

text \<open>
  The three line patterns of \<open>WHATSAPP_PATTERNS\<close>, all with the \<open>i\<close> flag. The
  separator class of the first two also lists the en dash, a code unit above 255 that
  the strings of this model do not contain.
\<close>

definition rx_wa_date :: rx where
  "rx_wa_date = rx_seq [Rep 1 (Some 2) rx_digit, rx_ch CHR ''/'', Rep 1 (Some 2) rx_digit,
     rx_ch CHR ''/'', Rep 2 (Some 4) rx_digit]"

definition rx_wa_time :: rx where
  "rx_wa_time = rx_seq [Rep 1 (Some 2) rx_digit, rx_ch CHR '':'', Rep 2 (Some 2) rx_digit,
     rx_opt (rx_seq [rx_ch CHR '':'', Rep 2 (Some 2) rx_digit])]"

definition rx_wa_tail :: rx where
  "rx_wa_tail = rx_seq [Grp 3 (rx_plus (Cls (\<lambda>c. c \<noteq> CHR '':''))), rx_ch CHR '':'',
     rx_star rx_space, Grp 4 (rx_plus rx_dot), Eol]"

definition rx_wa_us :: rx where
  "rx_wa_us = rx_seq [Bol, Grp 1 rx_wa_date, rx_opt (rx_ch CHR '',''), rx_plus rx_space,
     Grp 2 (rx_seq [rx_wa_time, rx_star rx_space,
       rx_opt (Alt (rx_seq [rx_ch_i CHR ''A'' CHR ''a'', rx_ch_i CHR ''M'' CHR ''m''])
                   (rx_seq [rx_ch_i CHR ''P'' CHR ''p'', rx_ch_i CHR ''M'' CHR ''m'']))]),
     rx_star rx_space, rx_ch CHR ''-'', rx_star rx_space, rx_wa_tail]"

definition rx_wa_eu :: rx where
  "rx_wa_eu = rx_seq [Bol, Grp 1 rx_wa_date, rx_opt (rx_ch CHR '',''), rx_plus rx_space,
     Grp 2 rx_wa_time, rx_star rx_space, rx_ch CHR ''-'', rx_star rx_space, rx_wa_tail]"

definition rx_wa_bracket :: rx where
  "rx_wa_bracket = rx_seq [Bol, rx_ch CHR ''['', Grp 1 rx_wa_date, rx_opt (rx_ch CHR '',''),
     rx_plus rx_space, Grp 2 rx_wa_time, rx_ch CHR '']'', rx_star rx_space, rx_wa_tail]"

definition WHATSAPP_PATTERNS :: "rx list" where
  "WHATSAPP_PATTERNS = [rx_wa_us, rx_wa_eu, rx_wa_bracket]"

record ParsedLine =
  pl_date :: string
  pl_time :: string
  pl_speaker :: string
  pl_text :: string

text \<open>A capture group that took no part in the match reads as the empty string here;
  every group of the three patterns takes part in every match.\<close>

definition cap :: "(nat \<rightharpoonup> string) \<Rightarrow> nat \<Rightarrow> string" where
  "cap m k = (case m k of Some s \<Rightarrow> s | None \<Rightarrow> [])"

fun parseLine_pats :: "rx list \<Rightarrow> string \<Rightarrow> ParsedLine option" where
  "parseLine_pats [] line = None"
| "parseLine_pats (p # ps) line =
     (case rx_match p line of
        Some m \<Rightarrow> Some \<lparr>pl_date = cap m 1, pl_time = cap m 2,
                         pl_speaker = trim (cap m 3), pl_text = trim (cap m 4)\<rparr>
      | None \<Rightarrow> parseLine_pats ps line)"

definition parseLine :: "string \<Rightarrow> ParsedLine option" where
  "parseLine line = parseLine_pats WHATSAPP_PATTERNS line"

text \<open>\<open>parseDateTime\<close>: the host's reading of \<open>date time\<close> with the slashes
  of the date replaced by dashes, else the three numeric parts of the date rearranged
  to year-month-day, day first when the first part exceeds 12.\<close>

definition parseDateTime :: "host \<Rightarrow> string \<Rightarrow> string \<Rightarrow> int option" where
  "parseDateTime h date time =
     (let normalizedDate = map (\<lambda>c. if c = CHR ''/'' then CHR ''-'' else c) date;
          dateTimeStr = normalizedDate @ '' '' @ time
      in case date_parse h dateTimeStr of
           Some t \<Rightarrow> Some t
         | None \<Rightarrow>
            (case map (to_number h) (rx_split (Cls (\<lambda>c. c = CHR ''/'' \<or> c = CHR ''-'')) date) of
               [a, b, c] \<Rightarrow>
                 (let year = (if js_lt c (Fin 100) then js_add (Fin 2000) c else c);
                      pad = (\<lambda>n. padStart 2 CHR ''0'' (num_to_string h n))
                  in if js_lt (Fin 12) a
                     then date_parse h (num_to_string h year @ ''-'' @ pad b @ ''-'' @ pad a @ '' '' @ time)
                     else date_parse h (num_to_string h year @ ''-'' @ pad a @ ''-'' @ pad b @ '' '' @ time))
             | _ \<Rightarrow> None))"

text \<open>The turn pushed for the header \<open>cur\<close> with the accumulated text \<open>txt\<close> when
  \<open>n\<close> turns have been pushed.\<close>

definition wa_turn :: "host \<Rightarrow> ParsedLine \<Rightarrow> string \<Rightarrow> nat \<Rightarrow> NormalizedTurn" where
  "wa_turn h cur txt n =
     \<lparr>speaker = pl_speaker cur, turn_text = trim txt,
      startMs = map_option (\<lambda>t. Fin (of_int t)) (parseDateTime h (pl_date cur) (pl_time cur)),
      endMs = None, turnIndex = n,
      metadata = [(''originalDate'', JStr (pl_date cur)), (''originalTime'', JStr (pl_time cur))]\<rparr>"

text \<open>The loop over the lines: the state is \<open>turns\<close>, \<open>currentTurn\<close> and
  \<open>currentText\<close>.\<close>

type_synonym wa_state = "NormalizedTurn list \<times> ParsedLine option \<times> string"

fun wa_step :: "host \<Rightarrow> wa_state \<Rightarrow> string \<Rightarrow> wa_state" where
  "wa_step h (ts, currentTurn, currentText) line =
     (case parseLine line of
        Some parsed \<Rightarrow>
          ((case currentTurn of
              Some cur \<Rightarrow> ts @ [wa_turn h cur currentText (length ts)]
            | None \<Rightarrow> ts),
           Some parsed, pl_text parsed)
      | None \<Rightarrow>
          (case currentTurn of
             Some cur \<Rightarrow> (ts, currentTurn, currentText @ [CHR 0x0A] @ line)
           | None \<Rightarrow> (ts, currentTurn, currentText)))"

fun wa_flush :: "host \<Rightarrow> wa_state \<Rightarrow> NormalizedTurn list" where
  "wa_flush h (ts, Some cur, currentText) = ts @ [wa_turn h cur currentText (length ts)]"
| "wa_flush h (ts, None, currentText) = ts"

definition wa_raw_turns :: "host \<Rightarrow> string list \<Rightarrow> NormalizedTurn list" where
  "wa_raw_turns h lines = wa_flush h (foldl (wa_step h) ([], None, []) lines)"

text \<open>``Normalize timestamps relative to first message'': the body of the loop, and
  the loop under its guard.\<close>

definition wa_shift :: "jsnum \<Rightarrow> NormalizedTurn \<Rightarrow> NormalizedTurn" where
  "wa_shift baseTime turn =
     (case startMs turn of
        None \<Rightarrow> turn
      | Some s \<Rightarrow> turn\<lparr>startMs := Some (js_sub s baseTime)\<rparr>)"

definition wa_rebase :: "NormalizedTurn list \<Rightarrow> NormalizedTurn list" where
  "wa_rebase ts =
     (case ts of
        [] \<Rightarrow> ts
      | t0 # _ \<Rightarrow>
          (case startMs t0 of
             None \<Rightarrow> ts
           | Some baseTime \<Rightarrow> map (wa_shift baseTime) ts))"

definition parseWhatsApp :: "host \<Rightarrow> string \<Rightarrow> string option \<Rightarrow> NormalizedConversation" where
  "parseWhatsApp h s ttl =
     \<lparr>title = str_or_default ttl ''WhatsApp Chat'', source = ''whatsapp'',
      turns = wa_rebase (wa_raw_turns h (nonblank_lines s)), conv_metadata = []\<rparr>"

text \<open>\<open>isWhatsAppText\<close> for a string. The comparison \<open>matches / samplSize >= 0.3\<close>
  is between doubles; for a sample of at most 10 lines it holds exactly when
  \<open>3 * samplSize \<le> 10 * matches\<close>.\<close>

definition isWhatsAppText :: "string \<Rightarrow> bool" where
  "isWhatsAppText s =
     (let lines = nonblank_lines s in
      if length lines < 2 then False
      else (let samplSize = min (length lines) 10;
                matches = length (filter (\<lambda>l. parseLine l \<noteq> None) (take samplSize lines))
            in 3 * samplSize \<le> 10 * matches))"

section \<open>JSON transcripts\<close>

text \<open>\<open>parseTimestampToMs\<close> of \<open>json-transcript.ts\<close>.\<close>

definition jt_parseTimestampToMs :: "host \<Rightarrow> string option \<Rightarrow> jsnum option" where
  "jt_parseTimestampToMs h timestamp =
     (case timestamp of
        None \<Rightarrow> None
      | Some t \<Rightarrow>
          if t = [] then None
          else (case date_parse h t of
                  Some ms \<Rightarrow> Some (Fin (of_int ms))
                | None \<Rightarrow>
                    (let parts = map (to_number h) (split_char CHR '':'' t) in
                     if list_ex js_isNaN parts then None
                     else (case parts of
                             [hours, minutes, seconds] \<Rightarrow>
                               Some (js_mul (js_add (js_add (js_mul hours (Fin 3600))
                                                            (js_mul minutes (Fin 60))) seconds)
                                            (Fin 1000))
                           | [minutes, seconds] \<Rightarrow>
                               Some (js_mul (js_add (js_mul minutes (Fin 60)) seconds) (Fin 1000))
                           | [seconds] \<Rightarrow> Some (js_mul seconds (Fin 1000))
                           | _ \<Rightarrow> None))))"

definition jt_turn :: "host \<Rightarrow> JsonTranscriptEntry \<Rightarrow> nat \<Rightarrow> NormalizedTurn" where
  "jt_turn h entry index =
     \<lparr>speaker = str_or_default (e_speaker entry) ''Unknown'',
      turn_text = e_text entry,
      startMs = (case e_start entry of
                   Some v \<Rightarrow> Some v
                 | None \<Rightarrow> jt_parseTimestampToMs h (e_timestamp entry)),
      endMs = e_end entry, turnIndex = index, metadata = []\<rparr>"

definition parseJsonTranscript ::
  "host \<Rightarrow> JsonTranscriptInput \<Rightarrow> string option \<Rightarrow> NormalizedConversation" where
  "parseJsonTranscript h input ttl =
     \<lparr>title = str_or_default (str_or ttl (jt_title input)) ''Untitled Transcript'',
      source = ''json-transcript'',
      turns = map_index (jt_turn h) (entries input), conv_metadata = []\<rparr>"

section \<open>Chat logs\<close>

definition cl_extractSpeaker :: "ChatLogMessage \<Rightarrow> string" where
  "cl_extractSpeaker m =
     str_or_default (str_or (m_user m) (str_or (m_username m) (str_or (m_author m) (m_sender m))))
       ''Unknown''"

definition extractText :: "ChatLogMessage \<Rightarrow> string" where
  "extractText m = str_or_default (str_or (m_text m) (str_or (m_message m) (m_content m))) []"

text \<open>\<open>parseTimestampToMs\<close> of \<open>chat-log.ts\<close>. A \<open>ts\<close> that is not a number
  gives \<open>NaN\<close>, which is a number and not \<open>undefined\<close>.\<close>

definition cl_parseTimestampToMs :: "host \<Rightarrow> ChatLogMessage \<Rightarrow> jsnum option" where
  "cl_parseTimestampToMs h m =
     (if truthy_str (m_ts m) then
        (let ts = parse_float h (the (m_ts m)) in
         if js_lt ts (Fin 4102444800) then Some (js_floor (js_mul ts (Fin 1000)))
         else Some (js_floor ts))
      else
        (case (if truthy_str (m_timestamp m) then date_parse h (the (m_timestamp m)) else None) of
           Some ms \<Rightarrow> Some (Fin (of_int ms))
         | None \<Rightarrow>
             (if truthy_str (m_date m) then
                (let dateStr = (if truthy_str (m_time m)
                                then the (m_date m) @ '' '' @ the (m_time m)
                                else the (m_date m))
                 in map_option (\<lambda>ms. Fin (of_int ms)) (date_parse h dateStr))
              else None)))"

text \<open>The comparator of the sort: 0 when either side has no timestamp.\<close>

definition cl_compare :: "host \<Rightarrow> ChatLogMessage \<Rightarrow> ChatLogMessage \<Rightarrow> jsnum" where
  "cl_compare h a b =
     (case (cl_parseTimestampToMs h a, cl_parseTimestampToMs h b) of
        (Some tsA, Some tsB) \<Rightarrow> js_sub tsA tsB
      | _ \<Rightarrow> Fin 0)"

text \<open>
  \<open>Array.prototype.sort\<close> is stable: an element goes behind the elements that the
  comparator puts strictly before it, and before the others. Where the comparator is
  a consistent order (here: where every timestamp is a finite number) this is the one
  result ECMAScript allows; elsewhere ECMAScript leaves the order to the host, and the
  model is one such host.
\<close>

fun js_insert :: "('a \<Rightarrow> 'a \<Rightarrow> jsnum) \<Rightarrow> 'a \<Rightarrow> 'a list \<Rightarrow> 'a list" where
  "js_insert cmp x [] = [x]"
| "js_insert cmp x (y # ys) =
     (if js_lt (cmp y x) (Fin 0) then y # js_insert cmp x ys else x # y # ys)"

definition js_sort :: "('a \<Rightarrow> 'a \<Rightarrow> jsnum) \<Rightarrow> 'a list \<Rightarrow> 'a list" where
  "js_sort cmp xs = foldr (js_insert cmp) xs []"

definition sortedMessages :: "host \<Rightarrow> ChatLogInput \<Rightarrow> ChatLogMessage list" where
  "sortedMessages h input = js_sort (cl_compare h) (messages input)"

text \<open>``Find the earliest timestamp to use as base'', over the sorted messages, all of
  them. (The host's limit on the number of arguments of \<open>Math.min(...timestamps)\<close> is
  not modelled.)\<close>

definition baseTimestamp :: "host \<Rightarrow> ChatLogInput \<Rightarrow> jsnum" where
  "baseTimestamp h input =
     (let timestamps = List.map_filter (cl_parseTimestampToMs h) (sortedMessages h input)
      in if 0 < length timestamps then js_Math_min timestamps else Fin 0)"

definition cl_turn :: "host \<Rightarrow> jsnum \<Rightarrow> ChatLogMessage \<Rightarrow> nat \<Rightarrow> NormalizedTurn" where
  "cl_turn h base message index =
     \<lparr>speaker = cl_extractSpeaker message, turn_text = extractText message,
      startMs = map_option (\<lambda>absoluteMs. js_sub absoluteMs base) (cl_parseTimestampToMs h message),
      endMs = None, turnIndex = index, metadata = []\<rparr>"

definition emitted :: "host \<Rightarrow> ChatLogInput \<Rightarrow> ChatLogMessage list" where
  "emitted h input = filter (\<lambda>msg. trim (extractText msg) \<noteq> []) (sortedMessages h input)"

definition parseChatLog :: "host \<Rightarrow> ChatLogInput \<Rightarrow> string option \<Rightarrow> NormalizedConversation" where
  "parseChatLog h input ttl =
     \<lparr>title = str_or_default (str_or ttl (str_or (cl_title input) (cl_channel input)))
                ''Untitled Chat'',
      source = ''chat-log'',
      turns = map_index (cl_turn h (baseTimestamp h input)) (emitted h input),
      conv_metadata = (case cl_channel input of Some c \<Rightarrow> [(''channel'', JStr c)] | None \<Rightarrow> [])\<rparr>"

section \<open>SRT subtitles\<close>

record SrtBlock =
  b_index :: jsnum
  b_startMs :: jsnum
  b_endMs :: jsnum
  b_text :: string

definition rx_set :: "string \<Rightarrow> rx" where
  "rx_set cs = Cls (\<lambda>c. c \<in> set cs)"

definition rx_not :: "char \<Rightarrow> rx" where
  "rx_not x = Cls (\<lambda>c. c \<noteq> x)"

definition rx_digits :: "nat \<Rightarrow> nat \<Rightarrow> rx" where
  "rx_digits lo hi = Rep lo (Some hi) rx_digit"

text \<open>\<open>/(\d{1,2}):(\d{2}):(\d{2})[,.](\d{3})/\<close>\<close>

definition rx_srt_fields :: rx where
  "rx_srt_fields = rx_seq [Grp 1 (rx_digits 1 2), rx_ch CHR '':'', Grp 2 (rx_digits 2 2),
     rx_ch CHR '':'', Grp 3 (rx_digits 2 2), rx_set '',.'', Grp 4 (rx_digits 3 3)]"

definition rx_srt_stamp :: rx where
  "rx_srt_stamp = rx_seq [rx_digits 1 2, rx_ch CHR '':'', rx_digits 2 2, rx_ch CHR '':'',
     rx_digits 2 2, rx_set '',.'', rx_digits 3 3]"

definition rx_arrow :: rx where
  "rx_arrow = rx_seq [rx_star rx_space, rx_ch CHR ''-'', rx_ch CHR ''-'', rx_ch CHR ''>'',
     rx_star rx_space]"

text \<open>The cue line, with the two stamps captured (\<open>parseSrtBlocks\<close>) and without
  (\<open>isSrtText\<close>).\<close>

definition rx_srt_range :: rx where
  "rx_srt_range = rx_seq [Grp 1 rx_srt_stamp, rx_arrow, Grp 2 rx_srt_stamp]"

definition rx_srt_range_test :: rx where
  "rx_srt_range_test = rx_seq [rx_srt_stamp, rx_arrow, rx_srt_stamp]"

definition parseTimestamp :: "host \<Rightarrow> string \<Rightarrow> jsnum" where
  "parseTimestamp h timestamp =
     (case rx_match rx_srt_fields timestamp of
        None \<Rightarrow> Fin 0
      | Some m \<Rightarrow>
          (let hours = to_number h (cap m 1); minutes = to_number h (cap m 2);
               seconds = to_number h (cap m 3); ms = to_number h (cap m 4)
           in js_add (js_add (js_add (js_mul hours (Fin 3600000)) (js_mul minutes (Fin 60000)))
                             (js_mul seconds (Fin 1000))) ms))"

text \<open>The three speaker patterns, all with the \<open>s\<close> flag.\<close>

definition is_alpha :: "char \<Rightarrow> bool" where
  "is_alpha c = (c \<in> set ''ABCDEFGHIJKLMNOPQRSTUVWXYZabcdefghijklmnopqrstuvwxyz'')"

definition rx_body :: rx where
  "rx_body = rx_seq [rx_star rx_space, Grp 2 (rx_plus rx_dot_all), Eol]"

definition srt_speaker_patterns :: "rx list" where
  "srt_speaker_patterns =
     [rx_seq [Bol, Grp 1 (rx_seq [Cls is_alpha,
                Rep 0 (Some 20) (Cls (\<lambda>c. is_alpha c \<or> is_digit c \<or> is_space c))]),
              rx_ch CHR '':'', rx_body],
      rx_seq [Bol, rx_ch CHR ''['', Grp 1 (rx_plus (rx_not CHR '']'')), rx_ch CHR '']'', rx_body],
      rx_seq [Bol, rx_ch CHR ''('', Grp 1 (rx_plus (rx_not CHR '')'')), rx_ch CHR '')'', rx_body]]"

fun extractSpeaker_pats :: "rx list \<Rightarrow> string \<Rightarrow> string \<times> string" where
  "extractSpeaker_pats [] s = (''Unknown'', s)"
| "extractSpeaker_pats (p # ps) s =
     (case rx_match p s of
        Some m \<Rightarrow> (trim (cap m 1), trim (cap m 2))
      | None \<Rightarrow> extractSpeaker_pats ps s)"

definition srt_extractSpeaker :: "string \<Rightarrow> string \<times> string" where
  "srt_extractSpeaker s = extractSpeaker_pats srt_speaker_patterns s"

text \<open>One raw block of \<open>parseSrtBlocks\<close>: \<open>None\<close> where the loop continues
  without a push.\<close>

definition parseSrtBlock :: "host \<Rightarrow> string \<Rightarrow> SrtBlock option" where
  "parseSrtBlock h block =
     (let lines = nonblank_lines block in
      if length lines < 3 then None
      else (let index = parse_int h (lines ! 0) in
            if js_isNaN index then None
            else (case rx_match rx_srt_range (lines ! 1) of
                    None \<Rightarrow> None
                  | Some timeMatch \<Rightarrow>
                      Some \<lparr>b_index = index,
                            b_startMs = parseTimestamp h (cap timeMatch 1),
                            b_endMs = parseTimestamp h (cap timeMatch 2),
                            b_text = trim (join [CHR 0x0A] (drop 2 lines))\<rparr>)))"

definition rx_blank_line :: rx where
  "rx_blank_line = rx_seq [rx_ch CHR 0x0A, rx_star rx_space, rx_ch CHR 0x0A]"

definition parseSrtBlocks :: "host \<Rightarrow> string \<Rightarrow> SrtBlock list" where
  "parseSrtBlocks h s =
     List.map_filter (parseSrtBlock h) (filter (\<lambda>b. trim b \<noteq> []) (rx_split rx_blank_line s))"

definition srt_turn :: "SrtBlock \<Rightarrow> nat \<Rightarrow> NormalizedTurn" where
  "srt_turn block n =
     (case srt_extractSpeaker (b_text block) of
        (spk, content) \<Rightarrow>
          \<lparr>speaker = spk, turn_text = content, startMs = Some (b_startMs block),
           endMs = Some (b_endMs block), turnIndex = n,
           metadata = [(''srtIndex'', JNum (b_index block))]\<rparr>)"

text \<open>The loop of \<open>parseSrt\<close> pushes one turn per block, numbered by the length of
  \<open>turns\<close> at the push.\<close>

definition srt_turns :: "SrtBlock list \<Rightarrow> NormalizedTurn list" where
  "srt_turns blocks = foldl (\<lambda>ts block. ts @ [srt_turn block (length ts)]) [] blocks"

definition parseSrt :: "host \<Rightarrow> string \<Rightarrow> string option \<Rightarrow> NormalizedConversation" where
  "parseSrt h s ttl =
     \<lparr>title = str_or_default ttl ''Subtitle Transcript'', source = ''srt'',
      turns = srt_turns (parseSrtBlocks h s), conv_metadata = []\<rparr>"

definition isSrtText :: "string \<Rightarrow> bool" where
  "isSrtText s =
     (let lines = nonblank_lines s in
      if length lines < 3 then False
      else rx_test (rx_seq [Bol, rx_plus rx_digit, Eol]) (trim (lines ! 0))
           \<and> rx_test rx_srt_range_test (lines ! 1))"

section \<open>Shape checks, detection and \<open>parseInput\<close>\<close>

text \<open>Truthiness, \<open>typeof x === "object"\<close> and \<open>key in x\<close> on payloads. An array
  has none of the keys the program asks for.\<close>

fun truthy :: "json \<Rightarrow> bool" where
  "truthy JNull = False"
| "truthy (JBool b) = b"
| "truthy (JNum n) = (n \<noteq> NaN \<and> n \<noteq> Fin 0)"
| "truthy (JStr s) = (s \<noteq> [])"
| "truthy (JArr xs) = True"
| "truthy (JObj kvs) = True"

fun is_object :: "json \<Rightarrow> bool" where
  "is_object JNull = True"
| "is_object (JArr xs) = True"
| "is_object (JObj kvs) = True"
| "is_object _ = False"

fun has_key :: "string \<Rightarrow> json \<Rightarrow> bool" where
  "has_key k (JObj kvs) = (k \<in> set (map fst kvs))"
| "has_key k _ = False"

fun get_array :: "string \<Rightarrow> json \<Rightarrow> json list option" where
  "get_array k (JObj kvs) = (case map_of kvs k of Some (JArr xs) \<Rightarrow> Some xs | _ \<Rightarrow> None)"
| "get_array k _ = None"

definition isJsonTranscript :: "json \<Rightarrow> bool" where
  "isJsonTranscript data =
     (if \<not> truthy data \<or> \<not> is_object data then False
      else (case get_array ''entries'' data of
              None \<Rightarrow> False
            | Some es \<Rightarrow>
                list_all (\<lambda>entry. truthy entry \<and> is_object entry \<and> has_key ''text'' entry \<and>
                            (has_key ''speaker'' entry \<or> has_key ''timestamp'' entry))
                  (take 3 es)))"

definition isChatLog :: "json \<Rightarrow> bool" where
  "isChatLog data =
     (if \<not> truthy data \<or> \<not> is_object data then False
      else (case get_array ''messages'' data of
              None \<Rightarrow> False
            | Some ms \<Rightarrow>
                list_all (\<lambda>msg.
                    if \<not> truthy msg \<or> \<not> is_object msg then False
                    else (let hasText = has_key ''text'' msg \<or> has_key ''message'' msg \<or>
                                        has_key ''content'' msg;
                              hasUser = has_key ''user'' msg \<or> has_key ''username'' msg \<or>
                                        has_key ''author'' msg \<or> has_key ''sender'' msg;
                              hasTimestamp = has_key ''ts'' msg \<or> has_key ''timestamp'' msg \<or>
                                             has_key ''date'' msg
                          in hasText \<or> (hasUser \<and> hasTimestamp)))
                  (take 3 ms)))"

definition detectFormat :: "json \<Rightarrow> InputFormat" where
  "detectFormat data =
     (if isJsonTranscript data then JsonTranscript
      else if isChatLog data then ChatLog
      else (case data of
              JStr s \<Rightarrow> if isSrtText s then Srt else if isWhatsAppText s then WhatsApp else Unknown
            | _ \<Rightarrow> Unknown))"

text \<open>
  The guards \<open>data is JsonTranscriptInput\<close> and \<open>data is ChatLogInput\<close> look at
  the array and at the keys of its first three elements; the parsers then read the
  payload at the declared type. The readers below give the payload at that type:
  an optional field is absent or a value of its type, \<open>text\<close> of an entry is a
  string. They give \<open>None\<close> for a payload that is not of the declared type, where
  what the program does is outside this model.
\<close>

definition opt_string :: "(string \<times> json) list \<Rightarrow> string \<Rightarrow> string option option" where
  "opt_string kvs k =
     (case map_of kvs k of None \<Rightarrow> Some None | Some (JStr s) \<Rightarrow> Some (Some s) | _ \<Rightarrow> None)"

definition opt_number :: "(string \<times> json) list \<Rightarrow> string \<Rightarrow> jsnum option option" where
  "opt_number kvs k =
     (case map_of kvs k of None \<Rightarrow> Some None | Some (JNum n) \<Rightarrow> Some (Some n) | _ \<Rightarrow> None)"

fun those_all :: "'a option list \<Rightarrow> 'a list option" where
  "those_all [] = Some []"
| "those_all (x # xs) = (case x of None \<Rightarrow> None | Some y \<Rightarrow> map_option ((#) y) (those_all xs))"

fun as_JsonTranscriptEntry :: "json \<Rightarrow> JsonTranscriptEntry option" where
  "as_JsonTranscriptEntry (JObj kvs) =
     do { sp \<leftarrow> opt_string kvs ''speaker'';
          ts \<leftarrow> opt_string kvs ''timestamp'';
          st \<leftarrow> opt_number kvs ''start'';
          en \<leftarrow> opt_number kvs ''end'';
          tx \<leftarrow> (case map_of kvs ''text'' of Some (JStr s) \<Rightarrow> Some s | _ \<Rightarrow> None);
          Some \<lparr>e_speaker = sp, e_timestamp = ts, e_start = st, e_end = en, e_text = tx\<rparr> }"
| "as_JsonTranscriptEntry _ = None"

fun as_JsonTranscriptInput :: "json \<Rightarrow> JsonTranscriptInput option" where
  "as_JsonTranscriptInput (JObj kvs) =
     do { t \<leftarrow> opt_string kvs ''title'';
          es \<leftarrow> get_array ''entries'' (JObj kvs);
          es' \<leftarrow> those_all (map as_JsonTranscriptEntry es);
          Some \<lparr>jt_title = t, entries = es'\<rparr> }"
| "as_JsonTranscriptInput _ = None"

fun as_ChatLogMessage :: "json \<Rightarrow> ChatLogMessage option" where
  "as_ChatLogMessage (JObj kvs) =
     do { a1 \<leftarrow> opt_string kvs ''user'';
          a2 \<leftarrow> opt_string kvs ''username'';
          a3 \<leftarrow> opt_string kvs ''author'';
          a4 \<leftarrow> opt_string kvs ''sender'';
          a5 \<leftarrow> opt_string kvs ''timestamp'';
          a6 \<leftarrow> opt_string kvs ''ts'';
          a7 \<leftarrow> opt_string kvs ''date'';
          a8 \<leftarrow> opt_string kvs ''time'';
          a9 \<leftarrow> opt_string kvs ''text'';
          a10 \<leftarrow> opt_string kvs ''message'';
          a11 \<leftarrow> opt_string kvs ''content'';
          Some \<lparr>m_user = a1, m_username = a2, m_author = a3, m_sender = a4, m_timestamp = a5,
                m_ts = a6, m_date = a7, m_time = a8, m_text = a9, m_message = a10,
                m_content = a11\<rparr> }"
| "as_ChatLogMessage _ = None"

fun as_ChatLogInput :: "json \<Rightarrow> ChatLogInput option" where
  "as_ChatLogInput (JObj kvs) =
     do { t \<leftarrow> opt_string kvs ''title'';
          c \<leftarrow> opt_string kvs ''channel'';
          ms \<leftarrow> get_array ''messages'' (JObj kvs);
          ms' \<leftarrow> those_all (map as_ChatLogMessage ms);
          Some \<lparr>cl_title = t, cl_channel = c, messages = ms'\<rparr> }"
| "as_ChatLogInput _ = None"

record options =
  format :: "InputFormat option"
  opt_title :: "string option"

text \<open>
  \<open>parseInput\<close>. The result is \<open>None\<close> only where a payload that passed the guard
  is not of the declared type. On payloads of the declared types no parser throws, so
  the \<open>catch\<close> branch has no case here.
\<close>

definition parseInput :: "host \<Rightarrow> json \<Rightarrow> options \<Rightarrow> ParseResult option" where
  "parseInput h data opts =
     (let fmt = (case format opts of Some f \<Rightarrow> f | None \<Rightarrow> detectFormat data) in
      case fmt of
        JsonTranscript \<Rightarrow>
          if \<not> isJsonTranscript data
          then Some (Failure ''Data does not match json-transcript format'' fmt)
          else map_option (\<lambda>input. Success (parseJsonTranscript h input (opt_title opts)) fmt)
                 (as_JsonTranscriptInput data)
      | ChatLog \<Rightarrow>
          if \<not> isChatLog data
          then Some (Failure ''Data does not match chat-log format'' fmt)
          else map_option (\<lambda>input. Success (parseChatLog h input (opt_title opts)) fmt)
                 (as_ChatLogInput data)
      | WhatsApp \<Rightarrow>
          (case data of
             JStr s \<Rightarrow> Some (Success (parseWhatsApp h s (opt_title opts)) fmt)
           | _ \<Rightarrow> Some (Failure ''WhatsApp format requires plain text input'' fmt))
      | Srt \<Rightarrow>
          (case data of
             JStr s \<Rightarrow> Some (Success (parseSrt h s (opt_title opts)) fmt)
           | _ \<Rightarrow> Some (Failure ''SRT format requires plain text input'' fmt))
      | Unknown \<Rightarrow>
          Some (Failure ''Unknown format. Supported: json-transcript, chat-log, whatsapp, srt''
                  Unknown))"

section \<open>A reference host\<close>

text \<open>
  A host for running the parsers on examples. Its \<open>Number\<close>, \<open>parseFloat\<close> and
  \<open>parseInt\<close> read an unsigned decimal numeral with an optional fraction (and
  \<open>Number\<close> reads the blank string as 0); on every other string they answer
  \<open>NaN\<close>, which is what ECMAScript answers on the other strings of the examples.
  Its \<open>Date\<close> knows the strings of \<open>ref_dates\<close>, read in UTC, and holds every
  other string for an invalid date. Its number-to-string conversion is exact on the
  natural numbers.
\<close>

definition digit_val :: "char \<Rightarrow> int" where
  "digit_val c = of_char c - 48"

definition dec_int :: "string \<Rightarrow> int" where
  "dec_int s = foldl (\<lambda>n c. 10 * n + digit_val c) 0 s"

definition dec_literal :: "string \<Rightarrow> jsnum" where
  "dec_literal s =
     (case split_char CHR ''.'' s of
        [a] \<Rightarrow> if a \<noteq> [] \<and> list_all is_digit a then Fin (of_int (dec_int a)) else NaN
      | [a, b] \<Rightarrow>
          if a \<noteq> [] \<and> list_all is_digit a \<and> list_all is_digit b
          then Fin (of_int (dec_int a) + of_int (dec_int b) / 10 ^ length b)
          else NaN
      | _ \<Rightarrow> NaN)"

function int_digits :: "int \<Rightarrow> string" where
  "int_digits n =
     (if n < 10 then [char_of (48 + n)] else int_digits (n div 10) @ [char_of (48 + n mod 10)])"
  by pat_completeness auto
termination
  by (relation "measure nat") auto

definition ref_num_to_string :: "jsnum \<Rightarrow> string" where
  "ref_num_to_string n =
     (case n of
        NaN \<Rightarrow> ''NaN''
      | PInf \<Rightarrow> ''Infinity''
      | NInf \<Rightarrow> ''-Infinity''
      | Fin r \<Rightarrow> int_digits \<lfloor>r\<rfloor>)"

definition ref_dates :: "(string \<times> int) list" where
  "ref_dates =
     [(''2024-01-29T14:30:00.000Z'', 1706538600000),
      (''2024-01-29T14:31:00.000Z'', 1706538660000),
      (''2024-01-29T15:00:00.000Z'', 1706540400000),
      (''1-29-24 2:30 PM'', 1706538600000),
      (''1-29-24 2:31 PM'', 1706538660000),
      (''1-29-24 2:35 PM'', 1706538900000)]"

definition ref_host :: host where
  "ref_host =
     \<lparr>date_parse = map_of ref_dates,
      to_number = (\<lambda>s. if trim s = [] then Fin 0 else dec_literal (trim s)),
      parse_float = (\<lambda>s. dec_literal (trim s)),
      parse_int = (\<lambda>s. if list_all is_digit (trim s) then dec_literal (trim s) else NaN),
      num_to_string = ref_num_to_string\<rparr>"

text \<open>
  A host that differs from the reference host in its \<open>Date\<close> alone, which also reads
  the string \<open>5\<close> as Node.js does (for a process in UTC): as midnight of 1 May 2001.
\<close>

definition node_host :: host where
  "node_host = ref_host\<lparr>date_parse := map_of ((''5'', 988675200000) # ref_dates)\<rparr>"

definition no_options :: options where
  "no_options = \<lparr>format = None, opt_title = None\<rparr>"

definition with_format :: "InputFormat \<Rightarrow> options" where
  "with_format f = \<lparr>format = Some f, opt_title = None\<rparr>"

section \<open>Notions of the statements and of the proofs\<close>

text \<open>The turns are numbered by their positions.\<close>

definition indexed :: "NormalizedTurn list \<Rightarrow> bool" where
  "indexed ts = (map turnIndex ts = [0..<length ts])"

text \<open>
  Chat logs: the timestamp of a message resolves when it is a finite number, which is
  then its time; a message has text when its text is not blank; the earliest time of
  an input is the least time of its messages.
\<close>

definition resolvable :: "host \<Rightarrow> ChatLogMessage \<Rightarrow> bool" where
  "resolvable h m = (case cl_parseTimestampToMs h m of Some (Fin r) \<Rightarrow> True | _ \<Rightarrow> False)"

definition cl_ms :: "host \<Rightarrow> ChatLogMessage \<Rightarrow> rat" where
  "cl_ms h m = (case cl_parseTimestampToMs h m of Some (Fin r) \<Rightarrow> r | _ \<Rightarrow> 0)"

definition has_text :: "ChatLogMessage \<Rightarrow> bool" where
  "has_text m = (trim (extractText m) \<noteq> [])"

definition earliest :: "host \<Rightarrow> ChatLogInput \<Rightarrow> rat" where
  "earliest h input = Min (cl_ms h ` set (messages input))"

text \<open>The resolved timestamps of all messages of an input, in input order, whatever
  the texts of the messages.\<close>

definition resolved :: "host \<Rightarrow> ChatLogInput \<Rightarrow> jsnum list" where
  "resolved h input = List.map_filter (cl_parseTimestampToMs h) (messages input)"

text \<open>
  WhatsApp: a header is a line that a pattern matches; \<open>joined t ls\<close> is the text
  \<open>t\<close> followed by the lines \<open>ls\<close>, each after a line break; a turn is made by
  the loop when it is \<open>wa_turn\<close> of a header.
\<close>

definition is_header :: "string \<Rightarrow> bool" where
  "is_header l = (parseLine l \<noteq> None)"

definition joined :: "string \<Rightarrow> string list \<Rightarrow> string" where
  "joined t ls = t @ concat (map (\<lambda>l. CHR 0x0A # l) ls)"

definition wa_made :: "host \<Rightarrow> NormalizedTurn \<Rightarrow> bool" where
  "wa_made h t = (\<exists>cur ctext n. t = wa_turn h cur ctext n)"

text \<open>
  The matcher: \<open>adv st st'\<close> when \<open>st'\<close> is \<open>st\<close> after some units of the input have
  been consumed; \<open>tail_of T st\<close> when the rest of the input in \<open>st\<close> is a suffix of
  \<open>T\<close>; \<open>body_end T st\<close> when \<open>st\<close> is at the end of the input and its latest
  capture is group 2, holding a non-empty suffix of \<open>T\<close>; \<open>ends_in_body T r\<close> when
  every run of \<open>r\<close> on a suffix of \<open>T\<close> ends so.
\<close>

definition adv :: "rx_state \<Rightarrow> rx_state \<Rightarrow> bool" where
  "adv st st' = (\<exists>p. fst (snd st) = p @ fst (snd st') \<and> fst st' = fst st + length p)"

definition tail_of :: "string \<Rightarrow> rx_state \<Rightarrow> bool" where
  "tail_of T st = (\<exists>p. T = p @ fst (snd st))"

definition body_end :: "string \<Rightarrow> rx_state \<Rightarrow> bool" where
  "body_end T st = (\<exists>i u c p. st = (i, [], (2, u) # c) \<and> u \<noteq> [] \<and> T = p @ u)"

definition ends_in_body :: "string \<Rightarrow> rx \<Rightarrow> bool" where
  "ends_in_body T r = (\<forall>st st'. tail_of T st \<longrightarrow> st' \<in> set (rx_run r st) \<longrightarrow> body_end T st')"

section \<open>Example inputs\<close>

text \<open>The JSON transcript of the README, as a payload, as its result and at its
  declared type.\<close>

definition ex_transcript :: json where
  "ex_transcript =
     JObj [(''entries'', JArr
       [JObj [(''speaker'', JStr ''Alice''), (''timestamp'', JStr ''00:00:05''),
              (''text'', JStr ''Hello everyone'')],
        JObj [(''speaker'', JStr ''Bob''), (''timestamp'', JStr ''00:00:12''),
              (''text'', JStr ''Hi Alice'')]])]"

definition ex_transcript_conv :: NormalizedConversation where
  "ex_transcript_conv =
     \<lparr>title = ''Untitled Transcript'', source = ''json-transcript'',
      turns = [\<lparr>speaker = ''Alice'', turn_text = ''Hello everyone'', startMs = Some (Fin 5000),
                 endMs = None, turnIndex = 0, metadata = []\<rparr>,
               \<lparr>speaker = ''Bob'', turn_text = ''Hi Alice'', startMs = Some (Fin 12000),
                 endMs = None, turnIndex = 1, metadata = []\<rparr>],
      conv_metadata = []\<rparr>"

definition ex_entries :: JsonTranscriptInput where
  "ex_entries =
     \<lparr>jt_title = None,
      entries = [\<lparr>e_speaker = Some ''Alice'', e_timestamp = Some ''00:00:05'', e_start = None,
                   e_end = None, e_text = ''Hello everyone''\<rparr>,
                 \<lparr>e_speaker = Some ''Bob'', e_timestamp = Some ''00:00:12'', e_start = None,
                   e_end = None, e_text = ''Hi Alice''\<rparr>]\<rparr>"

text \<open>A JSON transcript whose one entry has a timestamp of the form \<open>SS\<close>.\<close>

definition ex_bare_seconds :: json where
  "ex_bare_seconds =
     JObj [(''entries'', JArr [JObj [(''speaker'', JStr ''Alice''), (''timestamp'', JStr ''5''),
                                    (''text'', JStr ''Hello'')]])]"

text \<open>A JSON transcript whose one entry has the empty text.\<close>

definition ex_blank_entry :: json where
  "ex_blank_entry = JObj [(''entries'', JArr [JObj [(''speaker'', JStr ''Alice''), (''text'', JStr [])]])]"

text \<open>Chat-log messages with a Slack-style \<open>ts\<close> and a \<open>text\<close>, messages with a
  \<open>text\<close> and no time, inputs made of them, and a payload whose earlier message has the
  empty text.\<close>

definition ex_msg :: "string \<Rightarrow> string \<Rightarrow> ChatLogMessage" where
  "ex_msg ts body =
     \<lparr>m_user = None, m_username = None, m_author = None, m_sender = None, m_timestamp = None,
      m_ts = Some ts, m_date = None, m_time = None, m_text = Some body, m_message = None,
      m_content = None\<rparr>"

definition ex_untimed :: "string \<Rightarrow> ChatLogMessage" where
  "ex_untimed body =
     \<lparr>m_user = None, m_username = None, m_author = None, m_sender = None, m_timestamp = None,
      m_ts = None, m_date = None, m_time = None, m_text = Some body, m_message = None,
      m_content = None\<rparr>"

definition ex_log :: "ChatLogMessage list \<Rightarrow> ChatLogInput" where
  "ex_log ms = \<lparr>cl_title = None, cl_channel = None, messages = ms\<rparr>"

definition ex_dropped :: json where
  "ex_dropped =
     JObj [(''messages'', JArr
       [JObj [(''user'', JStr ''alice''), (''ts'', JStr ''100''), (''text'', JStr [])],
        JObj [(''user'', JStr ''bob''), (''ts'', JStr ''200''), (''text'', JStr ''Hey!'')]])]"

text \<open>The WhatsApp export of the README, one with a preamble and a message of three
  lines, and the SRT cue of the README.\<close>

definition ex_chat :: string where
  "ex_chat = ''1/29/24, 2:30 PM - Alice: Hello everyone'' @ [CHR 0x0A] @
             ''1/29/24, 2:31 PM - Bob: Hi Alice!''"

definition ex_multiline :: string where
  "ex_multiline = ''preamble'' @ [CHR 0x0A] @ ''1/29/24, 2:30 PM - Alice: Hello'' @ [CHR 0x0A] @
     ''second line'' @ [CHR 0x0A] @ ''third line'' @ [CHR 0x0A] @
     ''1/29/24, 2:31 PM - Bob: Hi Alice!''"

definition ex_srt :: string where
  "ex_srt = ''1'' @ [CHR 0x0A] @ ''00:00:05,000 --> 00:00:08,000'' @ [CHR 0x0A] @
            ''Alice: Hello everyone''"

section \<open>Turn indices\<close>

lemma map_index_length [simp]: "length (map_index f xs) = length xs"
  by (simp add: map_index_def)

lemma map_index_nth [simp]: "i < length xs \<Longrightarrow> map_index f xs ! i = f (xs ! i) i"
  by (simp add: map_index_def)

lemma srt_turns_acc:
  "foldl (\<lambda>ts block. ts @ [srt_turn block (length ts)]) acc bs =
   acc @ map (\<lambda>(b, i). srt_turn b (length acc + i)) (zip bs [0..<length bs])"
proof (induction bs arbitrary: acc rule: rev_induct)
  case Nil
  then show ?case by simp
next
  case (snoc b bs)
  then show ?case by simp
qed

lemma srt_turns_map_index: "srt_turns bs = map_index srt_turn bs"
  by (simp add: srt_turns_def srt_turns_acc map_index_def)

lemma turnIndex_srt_turn [simp]: "turnIndex (srt_turn b n) = n"
  by (simp add: srt_turn_def split: prod.splits)

lemma turnIndex_wa_turn [simp]: "turnIndex (wa_turn h cur txt n) = n"
  by (simp add: wa_turn_def)

lemma indexed_snoc: "indexed ts \<Longrightarrow> turnIndex t = length ts \<Longrightarrow> indexed (ts @ [t])"
  by (simp add: indexed_def)

lemma indexed_nth: "indexed ts \<Longrightarrow> i < length ts \<Longrightarrow> turnIndex (ts ! i) = i"
  by (metis indexed_def length_map nth_map nth_upt add_0)

lemma indexed_map_index: "(\<And>x i. turnIndex (f x i) = i) \<Longrightarrow> indexed (map_index f xs)"
  by (auto simp: indexed_def map_index_def intro!: nth_equalityI)

lemma wa_step_indexed:
  "indexed (fst st) \<Longrightarrow> indexed (fst (wa_step h st line))"
  by (cases st) (auto split: option.splits intro: indexed_snoc)

lemma wa_foldl_indexed:
  "indexed (fst st) \<Longrightarrow> indexed (fst (foldl (wa_step h) st ls))"
  by (induction ls arbitrary: st) (simp_all add: wa_step_indexed del: wa_step.simps)

lemma wa_flush_indexed: "indexed (fst st) \<Longrightarrow> indexed (wa_flush h st)"
  by (cases "(h, st)" rule: wa_flush.cases) (auto intro: indexed_snoc)

lemma wa_raw_indexed: "indexed (wa_raw_turns h ls)"
  unfolding wa_raw_turns_def
  by (rule wa_flush_indexed, rule wa_foldl_indexed) (simp add: indexed_def)

lemma wa_shift_fields [simp]:
  "turnIndex (wa_shift b t) = turnIndex t" "turn_text (wa_shift b t) = turn_text t"
  "speaker (wa_shift b t) = speaker t"
  by (simp_all add: wa_shift_def split: option.splits)

lemma wa_rebase_turnIndex: "map turnIndex (wa_rebase ts) = map turnIndex ts"
  by (auto simp: wa_rebase_def split: list.splits option.splits)

lemma wa_rebase_length [simp]: "length (wa_rebase ts) = length ts"
  by (auto simp: wa_rebase_def split: list.splits option.splits)

lemma wa_rebase_nth:
  assumes "i < length ts"
  shows "wa_rebase ts ! i =
     (case startMs (ts ! 0) of None \<Rightarrow> ts ! i | Some b \<Rightarrow> wa_shift b (ts ! i))"
proof (cases ts)
  case Nil
  then show ?thesis using assms by simp
next
  case (Cons t0 rest)
  show ?thesis
  proof (cases "startMs t0")
    case None
    then show ?thesis using Cons by (simp add: wa_rebase_def)
  next
    case (Some b)
    then have "wa_rebase ts = map (wa_shift b) ts"
      using Cons by (simp add: wa_rebase_def)
    then show ?thesis
      using assms Cons Some by (simp del: list.map)
  qed
qed

lemma wa_rebase_indexed: "indexed ts \<Longrightarrow> indexed (wa_rebase ts)"
  by (simp add: indexed_def wa_rebase_turnIndex)

lemma wa_rebase_fields:
  assumes "i < length ts"
  shows "turn_text (wa_rebase ts ! i) = turn_text (ts ! i)"
    and "speaker (wa_rebase ts ! i) = speaker (ts ! i)"
    and "turnIndex (wa_rebase ts ! i) = turnIndex (ts ! i)"
  by (simp_all add: wa_rebase_nth [OF assms] split: option.splits)

lemma indexed_parseWhatsApp: "indexed (turns (parseWhatsApp h s ttl))"
  by (simp add: parseWhatsApp_def wa_rebase_indexed wa_raw_indexed)

lemma indexed_parseSrt: "indexed (turns (parseSrt h s ttl))"
  by (simp add: parseSrt_def srt_turns_map_index indexed_map_index)

lemma indexed_parseJsonTranscript: "indexed (turns (parseJsonTranscript h inp ttl))"
  by (simp add: parseJsonTranscript_def indexed_map_index jt_turn_def)

lemma indexed_parseChatLog: "indexed (turns (parseChatLog h inp ttl))"
  by (simp add: parseChatLog_def indexed_map_index cl_turn_def)

lemma parseInput_Success_cases:
  assumes "parseInput h data opts = Some (Success conv fmt)"
  shows "(\<exists>inp. conv = parseJsonTranscript h inp (opt_title opts) \<and> fmt = JsonTranscript
            \<and> isJsonTranscript data \<and> as_JsonTranscriptInput data = Some inp)
       \<or> (\<exists>inp. conv = parseChatLog h inp (opt_title opts) \<and> fmt = ChatLog
            \<and> isChatLog data \<and> as_ChatLogInput data = Some inp)
       \<or> (\<exists>s. conv = parseWhatsApp h s (opt_title opts) \<and> fmt = WhatsApp \<and> data = JStr s)
       \<or> (\<exists>s. conv = parseSrt h s (opt_title opts) \<and> fmt = Srt \<and> data = JStr s)"
  using assms unfolding parseInput_def Let_def
  by (auto split: InputFormat.splits if_splits json.splits)

text \<open>
  C1. Whenever \<open>parseInput\<close> succeeds, in any of the four formats, the turn at
  position \<open>i\<close> of the result has \<open>turnIndex = i\<close>.
\<close>

theorem turnIndex_contiguous:
  assumes "parseInput h data opts = Some (Success conv fmt)" and "i < length (turns conv)"
  shows "turnIndex (turns conv ! i) = i"
proof -
  have "indexed (turns conv)"
    using parseInput_Success_cases [OF assms(1)]
    by (auto simp: indexed_parseWhatsApp indexed_parseSrt indexed_parseJsonTranscript
        indexed_parseChatLog)
  then show ?thesis using assms(2) by (rule indexed_nth)
qed

lemma ex_transcript_parse:
  "parseInput ref_host ex_transcript no_options = Some (Success ex_transcript_conv JsonTranscript)"
  by code_simp

theorem turnIndex_contiguous_witness:
  "parseInput ref_host ex_transcript no_options = Some (Success ex_transcript_conv JsonTranscript)
   \<and> 1 < length (turns ex_transcript_conv)
   \<and> turnIndex (turns ex_transcript_conv ! 1) = 1"
proof -
  have len: "1 < length (turns ex_transcript_conv)"
    by (simp add: ex_transcript_conv_def)
  have "turnIndex (turns ex_transcript_conv ! 1) = 1"
    by (rule turnIndex_contiguous [OF ex_transcript_parse len])
  with ex_transcript_parse len show ?thesis by simp
qed

section \<open>Chat-log ordering and the base of the offsets\<close>

lemma resolvable_ts: "resolvable h m \<Longrightarrow> cl_parseTimestampToMs h m = Some (Fin (cl_ms h m))"
  by (auto simp: resolvable_def cl_ms_def split: option.splits jsnum.splits)

lemma cl_compare_resolvable:
  "resolvable h a \<Longrightarrow> resolvable h b \<Longrightarrow> cl_compare h a b = Fin (cl_ms h a - cl_ms h b)"
  by (simp add: cl_compare_def resolvable_ts js_sub_def)

lemma js_insert_insort_key:
  "resolvable h x \<Longrightarrow> \<forall>y\<in>set ys. resolvable h y \<Longrightarrow>
   js_insert (cl_compare h) x ys = insort_key (cl_ms h) x ys"
  by (induction ys) (auto simp: cl_compare_resolvable)

lemma js_sort_sort_key:
  "\<forall>x\<in>set xs. resolvable h x \<Longrightarrow> js_sort (cl_compare h) xs = sort_key (cl_ms h) xs"
proof (induction xs)
  case Nil
  then show ?case by (simp add: js_sort_def)
next
  case (Cons x xs)
  then have "js_sort (cl_compare h) xs = sort_key (cl_ms h) xs" by simp
  moreover have "\<forall>y\<in>set (sort_key (cl_ms h) xs). resolvable h y"
    using Cons.prems by simp
  ultimately show ?case
    using Cons.prems by (simp add: js_sort_def js_insert_insort_key sort_key_def)
qed

lemma map_filter_resolvable:
  "\<forall>x\<in>set xs. resolvable h x \<Longrightarrow>
   List.map_filter (cl_parseTimestampToMs h) xs = map (\<lambda>m. Fin (cl_ms h m)) xs"
  by (induction xs) (simp_all add: List.map_filter_simps resolvable_ts)

lemma foldl_js_min2:
  "foldl js_min2 (Fin a) (map Fin rs) = Fin (fold min rs a)"
proof (induction rs arbitrary: a)
  case Nil
  then show ?case by simp
next
  case (Cons r rs)
  have "js_min2 (Fin a) (Fin r) = Fin (min r a)"
    by (simp add: min_def)
  then show ?case using Cons.IH by simp
qed

lemma js_Math_min_Fin:
  assumes "rs \<noteq> []"
  shows "js_Math_min (map Fin rs) = Fin (Min (set rs))"
proof -
  obtain r rest where rs: "rs = r # rest" using assms by (cases rs) auto
  have "js_Math_min (map Fin rs) = Fin (fold min rest r)"
    by (simp add: js_Math_min_def rs foldl_js_min2)
  also have "fold min rest r = Min (set rs)"
    by (simp only: rs Min.set_eq_fold)
  finally show ?thesis .
qed

lemma baseTimestamp_resolvable:
  assumes "\<forall>m\<in>set (messages input). resolvable h m" and "messages input \<noteq> []"
  shows "baseTimestamp h input = Fin (earliest h input)"
proof -
  let ?s = "sort_key (cl_ms h) (messages input)"
  have s: "sortedMessages h input = ?s"
    by (simp add: sortedMessages_def js_sort_sort_key [OF assms(1)])
  have "List.map_filter (cl_parseTimestampToMs h) ?s = map Fin (map (cl_ms h) ?s)"
    using map_filter_resolvable [of ?s h] assms(1) by simp
  moreover have "map (cl_ms h) ?s \<noteq> []"
    using assms(2) by (metis length_0_conv length_map length_sort)
  ultimately show ?thesis
    using js_Math_min_Fin [of "map (cl_ms h) ?s"]
    by (simp add: baseTimestamp_def s earliest_def del: map_map)
qed

lemma emitted_resolvable:
  assumes "\<forall>m\<in>set (messages input). resolvable h m"
  shows "emitted h input = filter has_text (sort_key (cl_ms h) (messages input))"
  by (simp add: emitted_def sortedMessages_def js_sort_sort_key [OF assms] has_text_def [abs_def])

lemma set_js_insert: "set (js_insert c x ys) = insert x (set ys)"
  by (induction ys) auto

lemma set_js_sort: "set (js_sort c xs) = set xs"
  by (induction xs) (simp_all add: js_sort_def set_js_insert)

lemma emitted_subset: "set (emitted h input) \<subseteq> set (messages input) \<inter> Collect has_text"
  by (auto simp: emitted_def sortedMessages_def has_text_def set_js_sort)

lemma sorted_emitted:
  assumes "\<forall>m\<in>set (messages input). resolvable h m"
  shows "sorted (map (cl_ms h) (emitted h input))"
  unfolding emitted_resolvable [OF assms] by (rule sorted_filter) simp

lemma startMs_cl_turn:
  "resolvable h m \<Longrightarrow> startMs (cl_turn h (Fin b) m i) = Some (Fin (cl_ms h m - b))"
  by (simp add: cl_turn_def resolvable_ts js_sub_def)

lemma turns_parseChatLog:
  "turns (parseChatLog h input ttl) = map_index (cl_turn h (baseTimestamp h input)) (emitted h input)"
  by (simp add: parseChatLog_def)

lemma chat_startMs:
  assumes "\<forall>m\<in>set (messages input). resolvable h m" and "i < length (emitted h input)"
  shows "startMs (turns (parseChatLog h input ttl) ! i) =
           Some (Fin (cl_ms h (emitted h input ! i) - earliest h input))"
    and "earliest h input \<le> cl_ms h (emitted h input ! i)"
proof -
  have mem: "emitted h input ! i \<in> set (messages input)"
    using emitted_subset [of h input] assms(2) nth_mem by blast
  then have ne: "messages input \<noteq> []" by auto
  show "startMs (turns (parseChatLog h input ttl) ! i) =
           Some (Fin (cl_ms h (emitted h input ! i) - earliest h input))"
    using assms mem
    by (simp add: turns_parseChatLog baseTimestamp_resolvable [OF assms(1) ne] startMs_cl_turn)
  show "earliest h input \<le> cl_ms h (emitted h input ! i)"
    unfolding earliest_def using mem by (intro Min_le) auto
qed

lemma first_emitted_least:
  assumes "\<forall>m\<in>set (messages input). resolvable h m" and "m \<in> set (messages input)" and "has_text m"
  shows "emitted h input \<noteq> []" and "cl_ms h (emitted h input ! 0) \<le> cl_ms h m"
proof -
  have m: "m \<in> set (emitted h input)"
    using assms by (simp add: emitted_resolvable)
  then show ne: "emitted h input \<noteq> []" by auto
  obtain j where j: "j < length (emitted h input)" "emitted h input ! j = m"
    using m by (auto simp: in_set_conv_nth)
  have "map (cl_ms h) (emitted h input) ! 0 \<le> map (cl_ms h) (emitted h input) ! j"
    using sorted_emitted [OF assms(1)] j(1) by (intro sorted_nth_mono) simp_all
  then show "cl_ms h (emitted h input ! 0) \<le> cl_ms h m"
    using j ne by simp
qed

text \<open>
  C3 (amended). When the timestamp of every message resolves to a finite number, the
  emitted messages are the messages sorted by time (stably) without those whose text
  is blank, so the turns are non-decreasing in time; the \<open>startMs\<close> of a turn is the
  time of its message minus the earliest time of all messages, dropped ones included,
  and is not negative; the first turn has \<open>startMs = 0\<close> when a message with the
  earliest time has text.
\<close>

theorem chat_log_ordering:
  assumes "\<forall>m\<in>set (messages input). resolvable h m"
  shows "emitted h input = filter has_text (sort_key (cl_ms h) (messages input))
    \<and> sorted (map (cl_ms h) (emitted h input))
    \<and> length (turns (parseChatLog h input ttl)) = length (emitted h input)
    \<and> (\<forall>i<length (emitted h input).
          turn_text (turns (parseChatLog h input ttl) ! i) = extractText (emitted h input ! i)
        \<and> startMs (turns (parseChatLog h input ttl) ! i) =
            Some (Fin (cl_ms h (emitted h input ! i) - earliest h input))
        \<and> earliest h input \<le> cl_ms h (emitted h input ! i))
    \<and> ((\<exists>m\<in>set (messages input). has_text m \<and> cl_ms h m = earliest h input) \<longrightarrow>
          startMs (turns (parseChatLog h input ttl) ! 0) = Some (Fin 0))"
proof (intro conjI allI impI)
  show "emitted h input = filter has_text (sort_key (cl_ms h) (messages input))"
    by (rule emitted_resolvable [OF assms])
  show "sorted (map (cl_ms h) (emitted h input))"
    by (rule sorted_emitted [OF assms])
  show "length (turns (parseChatLog h input ttl)) = length (emitted h input)"
    by (simp add: turns_parseChatLog)
next
  fix i assume i: "i < length (emitted h input)"
  show "turn_text (turns (parseChatLog h input ttl) ! i) = extractText (emitted h input ! i)"
    using i by (simp add: turns_parseChatLog cl_turn_def)
  show "startMs (turns (parseChatLog h input ttl) ! i) =
            Some (Fin (cl_ms h (emitted h input ! i) - earliest h input))"
    by (rule chat_startMs(1) [OF assms i])
  show "earliest h input \<le> cl_ms h (emitted h input ! i)"
    by (rule chat_startMs(2) [OF assms i])
next
  assume "\<exists>m\<in>set (messages input). has_text m \<and> cl_ms h m = earliest h input"
  then obtain m where m: "m \<in> set (messages input)" "has_text m" "cl_ms h m = earliest h input"
    by blast
  have 0: "0 < length (emitted h input)"
    using first_emitted_least(1) [OF assms m(1,2)] by simp
  have "cl_ms h (emitted h input ! 0) \<le> earliest h input"
    using first_emitted_least(2) [OF assms m(1,2)] m(3) by simp
  moreover have "earliest h input \<le> cl_ms h (emitted h input ! 0)"
    by (rule chat_startMs(2) [OF assms 0])
  ultimately show "startMs (turns (parseChatLog h input ttl) ! 0) = Some (Fin 0)"
    using chat_startMs(1) [OF assms 0, of ttl] by simp
qed

theorem chat_log_ordering_witness:
  "resolvable ref_host (ex_msg ''200'' ''second'') \<and> resolvable ref_host (ex_msg ''100'' ''first'')
   \<and> has_text (ex_msg ''100'' ''first'')
   \<and> cl_ms ref_host (ex_msg ''100'' ''first'') =
       earliest ref_host (ex_log [ex_msg ''200'' ''second'', ex_msg ''100'' ''first''])
   \<and> emitted ref_host (ex_log [ex_msg ''200'' ''second'', ex_msg ''100'' ''first'']) =
       [ex_msg ''100'' ''first'', ex_msg ''200'' ''second'']
   \<and> startMs (turns (parseChatLog ref_host
         (ex_log [ex_msg ''200'' ''second'', ex_msg ''100'' ''first'']) None) ! 0) = Some (Fin 0)"
proof -
  let ?a = "ex_msg ''200'' ''second''" and ?b = "ex_msg ''100'' ''first''"
  have r: "resolvable ref_host ?a" "resolvable ref_host ?b"
    by code_simp+
  have t: "has_text ?b"
    by code_simp
  have v: "cl_ms ref_host ?a = 200000" "cl_ms ref_host ?b = 100000"
    by code_simp+
  have e: "cl_ms ref_host ?b = earliest ref_host (ex_log [?a, ?b])"
    by (simp add: earliest_def ex_log_def v)
  have em: "emitted ref_host (ex_log [?a, ?b]) = [?b, ?a]"
    by code_simp
  have hyp: "\<forall>m\<in>set (messages (ex_log [?a, ?b])). resolvable ref_host m"
    using r by (simp add: ex_log_def)
  have ex: "\<exists>m\<in>set (messages (ex_log [?a, ?b])). has_text m \<and>
       cl_ms ref_host m = earliest ref_host (ex_log [?a, ?b])"
    using t e by (auto simp: ex_log_def)
  show ?thesis
    using chat_log_ordering [OF hyp, of None] ex r t e em by simp
qed

text \<open>
  Counterexample to C3 as stated: both timestamps resolve, the earlier message has no
  text and is dropped, and the first turn has \<open>startMs = 100000\<close>.
\<close>

theorem chat_log_ordering_counterexample:
  "map_option (\<lambda>input. map (cl_parseTimestampToMs ref_host) (messages input))
     (as_ChatLogInput ex_dropped) = Some [Some (Fin 100000), Some (Fin 200000)]
   \<and> parseInput ref_host ex_dropped no_options =
       Some (Success
         \<lparr>title = ''Untitled Chat'', source = ''chat-log'',
          turns = [\<lparr>speaker = ''bob'', turn_text = ''Hey!'', startMs = Some (Fin 100000),
                     endMs = None, turnIndex = 0, metadata = []\<rparr>],
          conv_metadata = []\<rparr> ChatLog)"
  by code_simp

lemma js_min2_commute: "js_min2 a b = js_min2 b a"
  by (cases a; cases b) auto

lemma js_min2_assoc: "js_min2 (js_min2 a b) c = js_min2 a (js_min2 b c)"
  by (cases a; cases b; cases c) auto

lemma js_min2_left_commute: "js_min2 a (js_min2 b c) = js_min2 b (js_min2 a c)"
  by (metis js_min2_assoc js_min2_commute)

lemma foldl_js_min2_out: "foldl js_min2 (js_min2 a b) xs = js_min2 a (foldl js_min2 b xs)"
  by (induction xs arbitrary: b) (simp_all add: js_min2_assoc)

lemma js_Math_min_Nil: "js_Math_min [] = PInf"
  by (simp add: js_Math_min_def)

lemma js_Math_min_Cons: "js_Math_min (x # xs) = js_min2 x (js_Math_min xs)"
  using foldl_js_min2_out [of x PInf xs] by (simp add: js_Math_min_def js_min2_commute)

lemma min_map_filter_Cons:
  "js_Math_min (List.map_filter f (x # xs)) =
     (case f x of None \<Rightarrow> js_Math_min (List.map_filter f xs)
      | Some t \<Rightarrow> js_min2 t (js_Math_min (List.map_filter f xs)))"
  by (simp add: List.map_filter_simps js_Math_min_Cons split: option.splits)

lemma min_map_filter_insert:
  "js_Math_min (List.map_filter f (js_insert c x ys)) = js_Math_min (List.map_filter f (x # ys))"
proof (induction ys)
  case Nil
  then show ?case by simp
next
  case (Cons y ys)
  show ?case
  proof (cases "js_lt (c y x) (Fin 0)")
    case True
    then have "js_Math_min (List.map_filter f (js_insert c x (y # ys))) =
        js_Math_min (List.map_filter f (y # js_insert c x ys))"
      by simp
    also have "\<dots> = js_Math_min (List.map_filter f (x # y # ys))"
      using Cons.IH
      by (simp add: min_map_filter_Cons js_min2_left_commute del: map_filter_simps
          split: option.splits)
    finally show ?thesis .
  next
    case False
    then show ?thesis by simp
  qed
qed

lemma min_map_filter_sort:
  "js_Math_min (List.map_filter f (js_sort c xs)) = js_Math_min (List.map_filter f xs)"
proof (induction xs)
  case Nil
  then show ?case by (simp add: js_sort_def)
next
  case (Cons x xs)
  have "js_Math_min (List.map_filter f (js_sort c (x # xs))) =
      js_Math_min (List.map_filter f (x # js_sort c xs))"
    by (simp add: js_sort_def min_map_filter_insert)
  then show ?case
    using Cons.IH
    by (simp add: min_map_filter_Cons del: map_filter_simps split: option.splits)
qed

lemma map_filter_Nil_iff: "List.map_filter f xs = [] \<longleftrightarrow> (\<forall>x\<in>set xs. f x = None)"
  by (induction xs) (auto simp: List.map_filter_simps split: option.splits)

lemma baseTimestamp_all:
  "baseTimestamp h input =
     (if resolved h input = [] then Fin 0 else js_Math_min (resolved h input))"
  by (simp add: baseTimestamp_def sortedMessages_def resolved_def min_map_filter_sort
      map_filter_Nil_iff set_js_sort)

lemma js_lt_irrefl: "\<not> js_lt a a"
  by (cases a) auto

lemma js_min2_cases: "a \<noteq> NaN \<Longrightarrow> b \<noteq> NaN \<Longrightarrow> js_min2 a b = a \<or> js_min2 a b = b"
  by (cases a; cases b) auto

lemma js_min2_lower:
  "a \<noteq> NaN \<Longrightarrow> b \<noteq> NaN \<Longrightarrow> \<not> js_lt a (js_min2 a b) \<and> \<not> js_lt b (js_min2 a b)"
  by (cases a; cases b) auto

lemma js_not_lt_trans:
  "a \<noteq> NaN \<Longrightarrow> b \<noteq> NaN \<Longrightarrow> c \<noteq> NaN \<Longrightarrow> \<not> js_lt a b \<Longrightarrow> \<not> js_lt b c \<Longrightarrow> \<not> js_lt a c"
  by (cases a; cases b; cases c) auto

lemma js_min2_PInf: "a \<noteq> NaN \<Longrightarrow> js_min2 a PInf = a"
  by (cases a) auto

lemma js_Math_min_least:
  "NaN \<notin> set xs \<Longrightarrow>
   js_Math_min xs \<noteq> NaN \<and> (\<forall>t\<in>set xs. \<not> js_lt t (js_Math_min xs)) \<and>
   (xs \<noteq> [] \<longrightarrow> js_Math_min xs \<in> set xs)"
proof (induction xs)
  case Nil
  then show ?case by (simp add: js_Math_min_Nil)
next
  case (Cons x xs)
  let ?m = "js_Math_min xs"
  have x: "x \<noteq> NaN" and m: "?m \<noteq> NaN" and low: "\<forall>t\<in>set xs. \<not> js_lt t ?m"
    and mem: "xs \<noteq> [] \<longrightarrow> ?m \<in> set xs" and nn: "\<forall>t\<in>set xs. t \<noteq> NaN"
    using Cons by auto
  have 1: "js_min2 x ?m \<noteq> NaN"
    using js_min2_cases [OF x m] x m by auto
  have 2: "\<not> js_lt t (js_min2 x ?m)" if "t \<in> set (x # xs)" for t
  proof (cases "t = x")
    case True
    then show ?thesis using js_min2_lower [OF x m] by simp
  next
    case False
    then have t: "t \<in> set xs" using that by simp
    then have "t \<noteq> NaN" "\<not> js_lt t ?m" using nn low by auto
    then show ?thesis
      using js_not_lt_trans [of t ?m "js_min2 x ?m"] m 1 js_min2_lower [OF x m] by blast
  qed
  have 3: "js_min2 x ?m \<in> set (x # xs)"
  proof (cases xs)
    case Nil
    then show ?thesis using js_min2_PInf [OF x] by (simp add: js_Math_min_Nil)
  next
    case (Cons y ys)
    then show ?thesis using mem js_min2_cases [OF x m] by auto
  qed
  show ?case
    using 1 2 3 by (simp add: js_Math_min_Cons)
qed

lemma chat_startMs_base:
  assumes "i < length (turns (parseChatLog h input ttl))"
  shows "startMs (turns (parseChatLog h input ttl) ! i) =
     map_option (\<lambda>a. js_sub a (baseTimestamp h input)) (cl_parseTimestampToMs h (emitted h input ! i))"
  using assms by (simp add: turns_parseChatLog cl_turn_def)

lemma chat_base_blank_earliest:
  assumes "\<forall>m\<in>set (messages input). resolvable h m"
    and "m0 \<in> set (messages input)" and "\<not> has_text m0"
    and "\<forall>m\<in>set (messages input). m \<noteq> m0 \<longrightarrow> cl_ms h m0 < cl_ms h m"
  shows "baseTimestamp h input = Fin (earliest h input)
    \<and> earliest h input = cl_ms h m0
    \<and> (\<forall>i<length (turns (parseChatLog h input ttl)).
          startMs (turns (parseChatLog h input ttl) ! i) =
            Some (Fin (cl_ms h (emitted h input ! i) - cl_ms h m0))
        \<and> 0 < cl_ms h (emitted h input ! i) - cl_ms h m0)"
proof -
  have ne: "messages input \<noteq> []" using assms(2) by auto
  have e: "earliest h input = cl_ms h m0"
    unfolding earliest_def
  proof (rule Min_eqI)
    show "finite (cl_ms h ` set (messages input))" by simp
    show "cl_ms h m0 \<le> y" if "y \<in> cl_ms h ` set (messages input)" for y
      using that assms(4) by force
    show "cl_ms h m0 \<in> cl_ms h ` set (messages input)"
      using assms(2) by simp
  qed
  have len: "length (turns (parseChatLog h input ttl)) = length (emitted h input)"
    by (simp add: turns_parseChatLog)
  have pos: "cl_ms h m0 < cl_ms h (emitted h input ! i)" if "i < length (emitted h input)" for i
  proof -
    have "emitted h input ! i \<in> set (messages input) \<inter> Collect has_text"
      using emitted_subset [of h input] that nth_mem by blast
    then show ?thesis
      using assms(3,4) by auto
  qed
  show ?thesis
    using baseTimestamp_resolvable [OF assms(1) ne] chat_startMs(1) [OF assms(1), of _ ttl] pos
    by (simp add: e len)
qed

text \<open>
  C9. For every chat-log input, the base of the offsets is \<open>Math.min\<close> over the
  resolved timestamps of all messages in the input, those with blank text included
  (and 0 when no timestamp resolves); when none of them is \<open>NaN\<close> it is one of them
  and none is less. The \<open>startMs\<close> of every turn is the timestamp of its message
  minus this base. So when every timestamp is finite and the one earliest message has
  blank text, the base is the time of that dropped message and every turn, the first
  included, has a \<open>startMs\<close> greater than 0.
\<close>

theorem chat_log_base_before_filter:
  "baseTimestamp h input =
     (if resolved h input = [] then Fin 0 else js_Math_min (resolved h input))
   \<and> (resolved h input \<noteq> [] \<and> NaN \<notin> set (resolved h input) \<longrightarrow>
        baseTimestamp h input \<in> set (resolved h input) \<and>
        (\<forall>t\<in>set (resolved h input). \<not> js_lt t (baseTimestamp h input)))
   \<and> (\<forall>i<length (turns (parseChatLog h input ttl)).
        startMs (turns (parseChatLog h input ttl) ! i) =
          map_option (\<lambda>a. js_sub a (baseTimestamp h input))
            (cl_parseTimestampToMs h (emitted h input ! i)))
   \<and> ((\<forall>m\<in>set (messages input). resolvable h m) \<and> m0 \<in> set (messages input) \<and>
        \<not> has_text m0 \<and> (\<forall>m\<in>set (messages input). m \<noteq> m0 \<longrightarrow> cl_ms h m0 < cl_ms h m) \<longrightarrow>
        baseTimestamp h input = Fin (earliest h input) \<and> earliest h input = cl_ms h m0 \<and>
        (\<forall>i<length (turns (parseChatLog h input ttl)).
           startMs (turns (parseChatLog h input ttl) ! i) =
             Some (Fin (cl_ms h (emitted h input ! i) - cl_ms h m0))
         \<and> 0 < cl_ms h (emitted h input ! i) - cl_ms h m0))"
proof (intro conjI)
  show "baseTimestamp h input =
     (if resolved h input = [] then Fin 0 else js_Math_min (resolved h input))"
    by (rule baseTimestamp_all)
  show "resolved h input \<noteq> [] \<and> NaN \<notin> set (resolved h input) \<longrightarrow>
        baseTimestamp h input \<in> set (resolved h input) \<and>
        (\<forall>t\<in>set (resolved h input). \<not> js_lt t (baseTimestamp h input))"
    using js_Math_min_least [of "resolved h input"] by (simp add: baseTimestamp_all)
  show "\<forall>i<length (turns (parseChatLog h input ttl)).
        startMs (turns (parseChatLog h input ttl) ! i) =
          map_option (\<lambda>a. js_sub a (baseTimestamp h input))
            (cl_parseTimestampToMs h (emitted h input ! i))"
    using chat_startMs_base by blast
  show "(\<forall>m\<in>set (messages input). resolvable h m) \<and> m0 \<in> set (messages input) \<and>
        \<not> has_text m0 \<and> (\<forall>m\<in>set (messages input). m \<noteq> m0 \<longrightarrow> cl_ms h m0 < cl_ms h m) \<longrightarrow>
        baseTimestamp h input = Fin (earliest h input) \<and> earliest h input = cl_ms h m0 \<and>
        (\<forall>i<length (turns (parseChatLog h input ttl)).
           startMs (turns (parseChatLog h input ttl) ! i) =
             Some (Fin (cl_ms h (emitted h input ! i) - cl_ms h m0))
         \<and> 0 < cl_ms h (emitted h input ! i) - cl_ms h m0)"
  proof
    assume a: "(\<forall>m\<in>set (messages input). resolvable h m) \<and> m0 \<in> set (messages input) \<and>
        \<not> has_text m0 \<and> (\<forall>m\<in>set (messages input). m \<noteq> m0 \<longrightarrow> cl_ms h m0 < cl_ms h m)"
    then have a1: "\<forall>m\<in>set (messages input). resolvable h m" and a2: "m0 \<in> set (messages input)"
      and a3: "\<not> has_text m0"
      and a4: "\<forall>m\<in>set (messages input). m \<noteq> m0 \<longrightarrow> cl_ms h m0 < cl_ms h m"
      by blast+
    show "baseTimestamp h input = Fin (earliest h input) \<and> earliest h input = cl_ms h m0 \<and>
        (\<forall>i<length (turns (parseChatLog h input ttl)).
           startMs (turns (parseChatLog h input ttl) ! i) =
             Some (Fin (cl_ms h (emitted h input ! i) - cl_ms h m0))
         \<and> 0 < cl_ms h (emitted h input ! i) - cl_ms h m0)"
      by (rule chat_base_blank_earliest [OF a1 a2 a3 a4])
  qed
qed

theorem chat_log_base_before_filter_witness:
  "resolved ref_host (ex_log [ex_untimed ''note'', ex_msg ''100'' [], ex_msg ''200'' ''Hey!'']) =
     [Fin 100000, Fin 200000]
   \<and> baseTimestamp ref_host (ex_log [ex_untimed ''note'', ex_msg ''100'' [], ex_msg ''200'' ''Hey!''])
       = Fin 100000
   \<and> map startMs (turns (parseChatLog ref_host
         (ex_log [ex_untimed ''note'', ex_msg ''100'' [], ex_msg ''200'' ''Hey!'']) None)) =
       [None, Some (Fin 100000)]
   \<and> resolvable ref_host (ex_msg ''100'' []) \<and> resolvable ref_host (ex_msg ''200'' ''Hey!'')
   \<and> \<not> has_text (ex_msg ''100'' [])
   \<and> cl_ms ref_host (ex_msg ''100'' []) < cl_ms ref_host (ex_msg ''200'' ''Hey!'')
   \<and> earliest ref_host (ex_log [ex_msg ''100'' [], ex_msg ''200'' ''Hey!'']) = 100000
   \<and> baseTimestamp ref_host (ex_log [ex_msg ''100'' [], ex_msg ''200'' ''Hey!'']) = Fin 100000
   \<and> emitted ref_host (ex_log [ex_msg ''100'' [], ex_msg ''200'' ''Hey!'']) = [ex_msg ''200'' ''Hey!'']
   \<and> startMs (turns (parseChatLog ref_host
         (ex_log [ex_msg ''100'' [], ex_msg ''200'' ''Hey!'']) None) ! 0) = Some (Fin 100000)"
proof -
  let ?u = "ex_untimed ''note''" and ?a = "ex_msg ''100'' []" and ?b = "ex_msg ''200'' ''Hey!''"
  have res: "resolved ref_host (ex_log [?u, ?a, ?b]) = [Fin 100000, Fin 200000]"
    by code_simp
  have mn: "js_Math_min [Fin 100000, Fin 200000] = Fin 100000"
    by (simp add: js_Math_min_def)
  have st: "map startMs (turns (parseChatLog ref_host (ex_log [?u, ?a, ?b]) None)) =
      [None, Some (Fin 100000)]"
    by code_simp
  have r: "resolvable ref_host ?a" "resolvable ref_host ?b"
    by code_simp+
  have t: "\<not> has_text ?a"
    by code_simp
  have v: "cl_ms ref_host ?a = 100000" "cl_ms ref_host ?b = 200000"
    by code_simp+
  have em: "emitted ref_host (ex_log [?a, ?b]) = [?b]"
    by code_simp
  have hyp: "\<forall>m\<in>set (messages (ex_log [?a, ?b])). resolvable ref_host m"
    using r by (simp add: ex_log_def)
  have mem: "?a \<in> set (messages (ex_log [?a, ?b]))"
    by (simp add: ex_log_def)
  have lt: "\<forall>m\<in>set (messages (ex_log [?a, ?b])). m \<noteq> ?a \<longrightarrow> cl_ms ref_host ?a < cl_ms ref_host m"
    by (simp add: ex_log_def v)
  have len: "0 < length (turns (parseChatLog ref_host (ex_log [?a, ?b]) None))"
    by (simp add: turns_parseChatLog em)
  have 1: "baseTimestamp ref_host (ex_log [?u, ?a, ?b]) = Fin 100000"
    using chat_log_base_before_filter [of ref_host "ex_log [?u, ?a, ?b]" None] by (simp add: res mn)
  have 2: "baseTimestamp ref_host (ex_log [?a, ?b]) = Fin (earliest ref_host (ex_log [?a, ?b]))
      \<and> earliest ref_host (ex_log [?a, ?b]) = cl_ms ref_host ?a
      \<and> startMs (turns (parseChatLog ref_host (ex_log [?a, ?b]) None) ! 0) =
          Some (Fin (cl_ms ref_host (emitted ref_host (ex_log [?a, ?b]) ! 0) - cl_ms ref_host ?a))"
    using chat_log_base_before_filter [of ref_host "ex_log [?a, ?b]" None ?a] hyp mem t lt len
    by blast
  show ?thesis
    using res st r t v em 1 2 by simp
qed

section \<open>Explicit formats\<close>

text \<open>
  C4 (amended). With an explicit format, a json-transcript or chat-log payload is
  checked again by \<open>isJsonTranscript\<close> or \<open>isChatLog\<close>, and a payload that fails
  the check gives the failure of that format. For whatsapp and srt the check is that
  the payload is a string: any other payload gives the failure of that format, and
  every string goes to the parser, whatever \<open>isWhatsAppText\<close> and \<open>isSrtText\<close>
  say of it.
\<close>

theorem explicit_format_checks:
  assumes "format opts = Some f"
  shows "(f = JsonTranscript \<and> \<not> isJsonTranscript data \<longrightarrow>
            parseInput h data opts =
              Some (Failure ''Data does not match json-transcript format'' JsonTranscript))
       \<and> (f = ChatLog \<and> \<not> isChatLog data \<longrightarrow>
            parseInput h data opts = Some (Failure ''Data does not match chat-log format'' ChatLog))
       \<and> (f = WhatsApp \<and> (\<forall>s. data \<noteq> JStr s) \<longrightarrow>
            parseInput h data opts =
              Some (Failure ''WhatsApp format requires plain text input'' WhatsApp))
       \<and> (f = Srt \<and> (\<forall>s. data \<noteq> JStr s) \<longrightarrow>
            parseInput h data opts = Some (Failure ''SRT format requires plain text input'' Srt))
       \<and> (f = WhatsApp \<longrightarrow> (\<forall>s. data = JStr s \<longrightarrow>
            parseInput h data opts = Some (Success (parseWhatsApp h s (opt_title opts)) WhatsApp)))
       \<and> (f = Srt \<longrightarrow> (\<forall>s. data = JStr s \<longrightarrow>
            parseInput h data opts = Some (Success (parseSrt h s (opt_title opts)) Srt)))"
  using assms by (cases data) (simp_all add: parseInput_def)

theorem explicit_format_checks_witness:
  "format (with_format ChatLog) = Some ChatLog
   \<and> \<not> isChatLog (JObj [(''entries'', JArr [])])
   \<and> parseInput ref_host (JObj [(''entries'', JArr [])]) (with_format ChatLog) =
       Some (Failure ''Data does not match chat-log format'' ChatLog)
   \<and> parseInput ref_host (JNum (Fin 1)) (with_format Srt) =
       Some (Failure ''SRT format requires plain text input'' Srt)"
proof -
  have f: "format (with_format ChatLog) = Some ChatLog" "format (with_format Srt) = Some Srt"
    by (simp_all add: with_format_def)
  have n: "\<not> isChatLog (JObj [(''entries'', JArr [])])"
    by (simp add: isChatLog_def)
  show ?thesis
    using explicit_format_checks [OF f(1), of "JObj [(''entries'', JArr [])]" ref_host]
      explicit_format_checks [OF f(2), of "JNum (Fin 1)" ref_host] f n
    by simp
qed

text \<open>
  Counterexample to C4 as stated: asked for whatsapp, \<open>parseInput\<close> runs the
  parser on a string that \<open>isWhatsAppText\<close> rejects, and succeeds.
\<close>

theorem explicit_format_counterexample:
  "\<not> isWhatsAppText ''hello''
   \<and> parseInput ref_host (JStr ''hello'') (with_format WhatsApp) =
       Some (Success \<lparr>title = ''WhatsApp Chat'', source = ''whatsapp'', turns = [],
                      conv_metadata = []\<rparr> WhatsApp)"
  by code_simp

section \<open>WhatsApp rebasing\<close>

lemma wa_step_made:
  "\<forall>t\<in>set (fst st). wa_made h t \<Longrightarrow> \<forall>t\<in>set (fst (wa_step h st l)). wa_made h t"
  by (cases st) (auto simp: wa_made_def split: option.splits)

lemma wa_foldl_made:
  "\<forall>t\<in>set (fst st). wa_made h t \<Longrightarrow> \<forall>t\<in>set (fst (foldl (wa_step h) st ls)). wa_made h t"
proof (induction ls arbitrary: st)
  case Nil
  then show ?case by simp
next
  case (Cons l ls)
  show ?case
    using Cons.IH [OF wa_step_made [OF Cons.prems]] by (simp del: wa_step.simps)
qed

lemma wa_flush_made:
  "\<forall>t\<in>set (fst st). wa_made h t \<Longrightarrow> \<forall>t\<in>set (wa_flush h st). wa_made h t"
  by (cases "(h, st)" rule: wa_flush.cases) (auto simp: wa_made_def)

lemma wa_raw_made: "t \<in> set (wa_raw_turns h ls) \<Longrightarrow> wa_made h t"
  using wa_flush_made [OF wa_foldl_made, of "([], None, [])" h ls]
  by (simp add: wa_raw_turns_def)

lemma wa_raw_startMs:
  "t \<in> set (wa_raw_turns h ls) \<Longrightarrow> startMs t = None \<or> (\<exists>a. startMs t = Some (Fin (of_int a)))"
  by (drule wa_raw_made) (auto simp: wa_made_def wa_turn_def)

lemma startMs_wa_shift:
  "startMs (wa_shift b t) = map_option (\<lambda>s. js_sub s b) (startMs t)"
  by (simp add: wa_shift_def split: option.splits)

lemma js_sub_Fin [simp]: "js_sub (Fin a) (Fin b) = Fin (a - b)"
  by (simp add: js_sub_def)

text \<open>
  C5. Let \<open>raw\<close> be the turns of a WhatsApp text as the loop pushes them, each with
  the absolute time of its header or none. If the first has a time \<open>b\<close>, the result
  has, turn by turn, the time \<open>a - b\<close> where \<open>raw\<close> has the time \<open>a\<close> and none
  where \<open>raw\<close> has none, so that the first turn has the time 0; if the first has no
  time, the result is \<open>raw\<close>. Texts, speakers and indices are those of \<open>raw\<close>.
\<close>

theorem whatsapp_rebasing:
  assumes "i < length (wa_raw_turns h (nonblank_lines s))"
  shows "length (turns (parseWhatsApp h s ttl)) = length (wa_raw_turns h (nonblank_lines s))
    \<and> (startMs (wa_raw_turns h (nonblank_lines s) ! i) = None \<or>
        (\<exists>a. startMs (wa_raw_turns h (nonblank_lines s) ! i) = Some (Fin (of_int a))))
    \<and> (\<forall>b. startMs (wa_raw_turns h (nonblank_lines s) ! 0) = Some (Fin (of_int b)) \<longrightarrow>
          startMs (turns (parseWhatsApp h s ttl) ! 0) = Some (Fin 0)
        \<and> (startMs (wa_raw_turns h (nonblank_lines s) ! i) = None \<longrightarrow>
             startMs (turns (parseWhatsApp h s ttl) ! i) = None)
        \<and> (\<forall>a. startMs (wa_raw_turns h (nonblank_lines s) ! i) = Some (Fin (of_int a)) \<longrightarrow>
             startMs (turns (parseWhatsApp h s ttl) ! i) = Some (Fin (of_int (a - b)))))
    \<and> (startMs (wa_raw_turns h (nonblank_lines s) ! 0) = None \<longrightarrow>
          turns (parseWhatsApp h s ttl) = wa_raw_turns h (nonblank_lines s))
    \<and> turn_text (turns (parseWhatsApp h s ttl) ! i) = turn_text (wa_raw_turns h (nonblank_lines s) ! i)
    \<and> speaker (turns (parseWhatsApp h s ttl) ! i) = speaker (wa_raw_turns h (nonblank_lines s) ! i)
    \<and> turnIndex (turns (parseWhatsApp h s ttl) ! i) = turnIndex (wa_raw_turns h (nonblank_lines s) ! i)"
proof -
  let ?raw = "wa_raw_turns h (nonblank_lines s)"
  have t: "turns (parseWhatsApp h s ttl) = wa_rebase ?raw"
    by (simp add: parseWhatsApp_def)
  have 0: "0 < length ?raw" using assms by auto
  have fin: "startMs (?raw ! i) = None \<or> (\<exists>a. startMs (?raw ! i) = Some (Fin (of_int a)))"
    using wa_raw_startMs [of "?raw ! i" h "nonblank_lines s"] assms by simp
  have none: "startMs (?raw ! 0) = None \<Longrightarrow> wa_rebase ?raw = ?raw"
    using 0 by (cases ?raw) (simp_all add: wa_rebase_def)
  show ?thesis
    unfolding t
    using fin none wa_rebase_fields [OF assms]
    by (auto simp: wa_rebase_nth [OF assms] wa_rebase_nth [OF 0] startMs_wa_shift)
qed

theorem whatsapp_rebasing_witness:
  "1 < length (wa_raw_turns ref_host (nonblank_lines ex_chat))
   \<and> startMs (wa_raw_turns ref_host (nonblank_lines ex_chat) ! 0) = Some (Fin (of_int 1706538600000))
   \<and> startMs (wa_raw_turns ref_host (nonblank_lines ex_chat) ! 1) = Some (Fin (of_int 1706538660000))
   \<and> startMs (turns (parseWhatsApp ref_host ex_chat None) ! 0) = Some (Fin 0)
   \<and> startMs (turns (parseWhatsApp ref_host ex_chat None) ! 1) = Some (Fin 60000)"
proof -
  have len: "1 < length (wa_raw_turns ref_host (nonblank_lines ex_chat))"
    by code_simp
  have s: "startMs (wa_raw_turns ref_host (nonblank_lines ex_chat) ! 0) = Some (Fin (of_int 1706538600000))"
    "startMs (wa_raw_turns ref_host (nonblank_lines ex_chat) ! 1) = Some (Fin (of_int 1706538660000))"
    by code_simp+
  show ?thesis
    using whatsapp_rebasing [OF len, of None] s len by simp
qed

section \<open>Timestamps of JSON transcripts\<close>

lemma startMs_jt_turn:
  "startMs (jt_turn h e i) =
     (case e_start e of Some v \<Rightarrow> Some v | None \<Rightarrow> jt_parseTimestampToMs h (e_timestamp e))"
  by (simp add: jt_turn_def)

lemma turns_parseJsonTranscript:
  "turns (parseJsonTranscript h inp ttl) = map_index (jt_turn h) (entries inp)"
  by (simp add: parseJsonTranscript_def)

lemma jt_parse_absent:
  "jt_parseTimestampToMs h None = None" "jt_parseTimestampToMs h (Some []) = None"
  by (simp_all add: jt_parseTimestampToMs_def)

lemma jt_parse_iso:
  "t \<noteq> [] \<Longrightarrow> date_parse h t = Some ms \<Longrightarrow> jt_parseTimestampToMs h (Some t) = Some (Fin (of_int ms))"
  by (simp add: jt_parseTimestampToMs_def)

lemma jt_parse_nan:
  "date_parse h t = None \<Longrightarrow> NaN \<in> set (map (to_number h) (split_char CHR '':'' t)) \<Longrightarrow>
   jt_parseTimestampToMs h (Some t) = None"
  by (auto simp: jt_parseTimestampToMs_def Let_def list_ex_iff js_isNaN_def)

lemma jt_parse_parts:
  assumes "t \<noteq> []" "date_parse h t = None" "NaN \<notin> set (map (to_number h) (split_char CHR '':'' t))"
  shows "jt_parseTimestampToMs h (Some t) =
     (case map (to_number h) (split_char CHR '':'' t) of
        [hours, minutes, seconds] \<Rightarrow>
          Some (js_mul (js_add (js_add (js_mul hours (Fin 3600)) (js_mul minutes (Fin 60))) seconds)
                  (Fin 1000))
      | [minutes, seconds] \<Rightarrow> Some (js_mul (js_add (js_mul minutes (Fin 60)) seconds) (Fin 1000))
      | [seconds] \<Rightarrow> Some (js_mul seconds (Fin 1000))
      | _ \<Rightarrow> None)"
proof -
  have "\<not> list_ex js_isNaN (map (to_number h) (split_char CHR '':'' t))"
    using assms(3) by (auto simp: list_ex_iff js_isNaN_def)
  then show ?thesis
    using assms(1,2) by (simp add: jt_parseTimestampToMs_def Let_def)
qed

text \<open>
  The turns of a JSON transcript are its entries in input order, and the \<open>startMs\<close>
  of each turn depends on its entry alone (nothing is rebased): it is \<open>start\<close> when
  the entry has one; else, for a non-empty \<open>timestamp\<close>, the epoch milliseconds of the
  host's \<open>Date\<close> when that accepts the string; else, the string being split at the
  colons and every field read as a number, undefined when a field is not a number, and
  otherwise \<open>((h * 3600 + m * 60) + s) * 1000\<close>, \<open>(m * 60 + s) * 1000\<close> or
  \<open>s * 1000\<close> for three, two or one fields.
\<close>

lemma jt_startMs_cases:
  assumes "i < length (entries inp)"
  shows "length (turns (parseJsonTranscript h inp ttl)) = length (entries inp)
    \<and> turn_text (turns (parseJsonTranscript h inp ttl) ! i) = e_text (entries inp ! i)
    \<and> (\<forall>v. e_start (entries inp ! i) = Some v \<longrightarrow>
          startMs (turns (parseJsonTranscript h inp ttl) ! i) = Some v)
    \<and> (e_start (entries inp ! i) = None \<and>
         (e_timestamp (entries inp ! i) = None \<or> e_timestamp (entries inp ! i) = Some []) \<longrightarrow>
          startMs (turns (parseJsonTranscript h inp ttl) ! i) = None)
    \<and> (\<forall>t. e_start (entries inp ! i) = None \<and> e_timestamp (entries inp ! i) = Some t \<and> t \<noteq> [] \<longrightarrow>
          (\<forall>ms. date_parse h t = Some ms \<longrightarrow>
             startMs (turns (parseJsonTranscript h inp ttl) ! i) = Some (Fin (of_int ms)))
        \<and> (date_parse h t = None \<and> NaN \<in> set (map (to_number h) (split_char CHR '':'' t)) \<longrightarrow>
             startMs (turns (parseJsonTranscript h inp ttl) ! i) = None)
        \<and> (date_parse h t = None \<and> NaN \<notin> set (map (to_number h) (split_char CHR '':'' t)) \<longrightarrow>
             (\<forall>hh mm ss. map (to_number h) (split_char CHR '':'' t) = [hh, mm, ss] \<longrightarrow>
                startMs (turns (parseJsonTranscript h inp ttl) ! i) =
                  Some (js_mul (js_add (js_add (js_mul hh (Fin 3600)) (js_mul mm (Fin 60))) ss)
                          (Fin 1000)))
           \<and> (\<forall>mm ss. map (to_number h) (split_char CHR '':'' t) = [mm, ss] \<longrightarrow>
                startMs (turns (parseJsonTranscript h inp ttl) ! i) =
                  Some (js_mul (js_add (js_mul mm (Fin 60)) ss) (Fin 1000)))
           \<and> (\<forall>ss. map (to_number h) (split_char CHR '':'' t) = [ss] \<longrightarrow>
                startMs (turns (parseJsonTranscript h inp ttl) ! i) = Some (js_mul ss (Fin 1000)))))"
  using assms
  by (auto simp: turns_parseJsonTranscript startMs_jt_turn jt_parse_iso jt_parse_nan
      jt_parse_parts jt_turn_def jt_parse_absent simp del: set_map)

lemma ex_entries_json: "as_JsonTranscriptInput ex_transcript = Some ex_entries"
  by code_simp

text \<open>The example of the README, on a host whose \<open>Date\<close> rejects \<open>00:00:12\<close>.\<close>

lemma jt_startMs_readme:
  "1 < length (entries ex_entries)
   \<and> date_parse ref_host ''00:00:12'' = None
   \<and> map (to_number ref_host) (split_char CHR '':'' ''00:00:12'') = [Fin 0, Fin 0, Fin 12]
   \<and> startMs (turns (parseJsonTranscript ref_host ex_entries None) ! 1) = Some (Fin 12000)"
proof -
  have len: "1 < length (entries ex_entries)"
    by (simp add: ex_entries_def)
  have e: "e_start (entries ex_entries ! 1) = None"
    "e_timestamp (entries ex_entries ! 1) = Some ''00:00:12''"
    by (simp_all add: ex_entries_def)
  have d: "date_parse ref_host ''00:00:12'' = None"
    by code_simp
  have n: "map (to_number ref_host) (split_char CHR '':'' ''00:00:12'') = [Fin 0, Fin 0, Fin 12]"
    by code_simp
  have "startMs (turns (parseJsonTranscript ref_host ex_entries None) ! 1) =
      Some (js_mul (js_add (js_add (js_mul (Fin 0) (Fin 3600)) (js_mul (Fin 0) (Fin 60))) (Fin 12))
              (Fin 1000))"
    using jt_startMs_cases [OF len, of ref_host None] e d n by simp
  with len d n show ?thesis by simp
qed

text \<open>
  C6. The colon fields are read only after the host's \<open>Date\<close> has rejected the
  string. The \<open>Date\<close> of Node.js accepts a bare number such as \<open>5\<close>, as a month
  of 2001, so there the timestamp \<open>5\<close>, of the form \<open>SS\<close>, resolves to that epoch and
  not to 5000 milliseconds; on a host whose \<open>Date\<close> rejects the string it resolves to
  5000.
\<close>

theorem bare_seconds_on_node:
  "date_parse node_host ''5'' = Some 988675200000
   \<and> jt_parseTimestampToMs node_host (Some ''5'') = Some (Fin 988675200000)
   \<and> jt_parseTimestampToMs ref_host (Some ''5'') = Some (Fin 5000)
   \<and> parseInput node_host ex_bare_seconds no_options =
       Some (Success
         \<lparr>title = ''Untitled Transcript'', source = ''json-transcript'',
          turns = [\<lparr>speaker = ''Alice'', turn_text = ''Hello'', startMs = Some (Fin 988675200000),
                     endMs = None, turnIndex = 0, metadata = []\<rparr>],
          conv_metadata = []\<rparr> JsonTranscript)"
  by code_simp

section \<open>WhatsApp continuation lines\<close>

lemma wa_step_header:
  "parseLine l = Some p \<Longrightarrow> wa_step h st l = (wa_flush h st, Some p, pl_text p)"
  by (cases "(h, st)" rule: wa_flush.cases) simp_all

lemma wa_step_cont:
  "parseLine l = None \<Longrightarrow> wa_step h (ts, Some p, ctext) l = (ts, Some p, ctext @ CHR 0x0A # l)"
  by simp

lemma wa_step_noise:
  "parseLine l = None \<Longrightarrow> wa_step h (ts, None, ctext) l = (ts, None, ctext)"
  by simp

lemma wa_foldl_conts:
  "\<forall>l\<in>set cs. parseLine l = None \<Longrightarrow>
   foldl (wa_step h) (ts, Some p, ctext) cs = (ts, Some p, joined ctext cs)"
  by (induction cs arbitrary: ctext) (simp_all add: joined_def del: wa_step.simps add: wa_step_cont)

lemma wa_foldl_noise:
  "\<forall>l\<in>set cs. parseLine l = None \<Longrightarrow> foldl (wa_step h) (ts, None, ctext) cs = (ts, None, ctext)"
  by (induction cs) (simp_all del: wa_step.simps add: wa_step_noise)

lemma wa_step_grows: "\<exists>ext. fst (wa_step h (ts, cur, ctext) l) = ts @ ext"
  by (auto split: option.splits)

lemma wa_foldl_grows: "\<exists>ext. fst (foldl (wa_step h) st ls) = fst st @ ext"
proof (induction ls arbitrary: st)
  case Nil
  then show ?case by simp
next
  case (Cons l ls)
  obtain ts cur ctext where st: "st = (ts, cur, ctext)" by (cases st)
  obtain e1 where e1: "fst (wa_step h st l) = fst st @ e1"
    using wa_step_grows [of h ts cur ctext l] st by auto
  obtain e2 where "fst (foldl (wa_step h) (wa_step h st l) ls) = fst (wa_step h st l) @ e2"
    using Cons.IH by blast
  with e1 show ?case by (simp del: wa_step.simps)
qed

lemma wa_flush_grows: "\<exists>ext. wa_flush h st = fst st @ ext"
  by (cases "(h, st)" rule: wa_flush.cases) simp_all

lemma wa_run_grows: "\<exists>ext. wa_flush h (foldl (wa_step h) st ls) = fst st @ ext"
proof -
  obtain e1 where "fst (foldl (wa_step h) st ls) = fst st @ e1"
    using wa_foldl_grows by blast
  moreover obtain e2 where "wa_flush h (foldl (wa_step h) st ls) = fst (foldl (wa_step h) st ls) @ e2"
    using wa_flush_grows by blast
  ultimately show ?thesis by simp
qed

lemma wa_run_length:
  "length (wa_flush h (foldl (wa_step h) (ts, cur, ctext) ls)) =
   length ts + length (filter is_header ls) + (if cur = None then 0 else 1)"
proof (induction ls arbitrary: ts cur ctext)
  case Nil
  then show ?case by (cases cur) simp_all
next
  case (Cons l ls)
  show ?case
  proof (cases "parseLine l")
    case None
    then show ?thesis
      using Cons.IH by (cases cur) (simp_all add: is_header_def)
  next
    case (Some p)
    then show ?thesis
      using Cons.IH by (cases cur) (simp_all add: is_header_def)
  qed
qed

lemma wa_raw_length: "length (wa_raw_turns h ls) = length (filter is_header ls)"
  by (simp add: wa_raw_turns_def wa_run_length)

lemma wa_raw_noise:
  "\<forall>l\<in>set noise. parseLine l = None \<Longrightarrow> wa_raw_turns h (noise @ ls) = wa_raw_turns h ls"
  by (simp add: wa_raw_turns_def wa_foldl_noise)

lemma wa_raw_group:
  assumes "parseLine hdr = Some p" and "\<forall>l\<in>set conts. parseLine l = None"
    and "rest = [] \<or> parseLine (hd rest) \<noteq> None"
  shows "wa_raw_turns h (pre @ hdr # conts @ rest) ! length (filter is_header pre) =
         wa_turn h p (joined (pl_text p) conts) (length (filter is_header pre))"
proof -
  define st1 where "st1 = foldl (wa_step h) ([], None, []) pre"
  define ts2 where "ts2 = wa_flush h st1"
  define t where "t = wa_turn h p (joined (pl_text p) conts) (length ts2)"
  have len: "length ts2 = length (filter is_header pre)"
    using wa_raw_length [of h pre] by (simp add: ts2_def st1_def wa_raw_turns_def)
  have st3: "foldl (wa_step h) ([], None, []) (pre @ hdr # conts) = (ts2, Some p, joined (pl_text p) conts)"
    using assms(1,2)
    by (simp add: st1_def [symmetric] wa_step_header ts2_def [symmetric] wa_foldl_conts
        del: wa_step.simps)
  have "\<exists>ext. wa_raw_turns h (pre @ hdr # conts @ rest) = (ts2 @ [t]) @ ext"
  proof (cases rest)
    case Nil
    then show ?thesis
      using st3 by (simp add: wa_raw_turns_def t_def del: wa_step.simps)
  next
    case (Cons r rs)
    then obtain q where q: "parseLine r = Some q"
      using assms(3) by auto
    have "foldl (wa_step h) ([], None, []) (pre @ hdr # conts @ rest) =
          foldl (wa_step h) (ts2 @ [t], Some q, pl_text q) rs"
      using st3 q Cons
      by (simp add: wa_step_header t_def del: wa_step.simps foldl_append
          add: foldl_append [of _ _ "pre @ hdr # conts", simplified])
    then show ?thesis
      using wa_run_grows [of h "(ts2 @ [t], Some q, pl_text q)" rs]
      by (simp add: wa_raw_turns_def)
  qed
  then obtain ext where "wa_raw_turns h (pre @ hdr # conts @ rest) = (ts2 @ [t]) @ ext"
    by blast
  then have "wa_raw_turns h (pre @ hdr # conts @ rest) ! length ts2 = t"
    by (simp add: nth_append)
  then show ?thesis
    by (simp add: len t_def)
qed

text \<open>
  C7 (amended). Of the lines of the input that are not blank, a header line followed
  by lines that match no pattern, up to the next header line or the end, becomes one
  turn: there is one turn per header line, and the turn of this header has the text of
  the header joined with the following lines by line breaks and then trimmed. Lines
  that match no pattern before the first header leave the result unchanged.
\<close>

theorem whatsapp_continuation:
  assumes "nonblank_lines s = pre @ hdr # conts @ rest"
    and "parseLine hdr = Some p"
    and "\<forall>l\<in>set conts. parseLine l = None"
    and "rest = [] \<or> parseLine (hd rest) \<noteq> None"
  shows "length (turns (parseWhatsApp h s ttl)) = length (filter is_header (nonblank_lines s))
    \<and> length (filter is_header pre) < length (turns (parseWhatsApp h s ttl))
    \<and> turn_text (turns (parseWhatsApp h s ttl) ! length (filter is_header pre)) =
          trim (joined (pl_text p) conts)
    \<and> speaker (turns (parseWhatsApp h s ttl) ! length (filter is_header pre)) = pl_speaker p
    \<and> turnIndex (turns (parseWhatsApp h s ttl) ! length (filter is_header pre)) =
          length (filter is_header pre)
    \<and> (\<forall>noise ls. (\<forall>l\<in>set noise. parseLine l = None) \<longrightarrow>
          wa_raw_turns h (noise @ ls) = wa_raw_turns h ls)"
proof -
  let ?k = "length (filter is_header pre)"
  let ?raw = "wa_raw_turns h (nonblank_lines s)"
  have len: "length ?raw = length (filter is_header (nonblank_lines s))"
    by (rule wa_raw_length)
  have k: "?k < length ?raw"
    unfolding len using assms(2) by (simp add: assms(1) is_header_def)
  have t: "?raw ! ?k = wa_turn h p (joined (pl_text p) conts) ?k"
    using wa_raw_group [OF assms(2,3,4)] assms(1) by simp
  show ?thesis
    using len k t wa_rebase_fields [OF k] wa_raw_noise
    by (simp add: parseWhatsApp_def wa_turn_def)
qed

theorem whatsapp_continuation_witness:
  "nonblank_lines ex_multiline =
     [''preamble''] @ ''1/29/24, 2:30 PM - Alice: Hello'' # [''second line'', ''third line'']
       @ [''1/29/24, 2:31 PM - Bob: Hi Alice!'']
   \<and> parseLine ''1/29/24, 2:30 PM - Alice: Hello'' =
       Some \<lparr>pl_date = ''1/29/24'', pl_time = ''2:30 PM'', pl_speaker = ''Alice'', pl_text = ''Hello''\<rparr>
   \<and> parseLine ''preamble'' = None \<and> parseLine ''second line'' = None
   \<and> parseLine ''third line'' = None
   \<and> parseLine ''1/29/24, 2:31 PM - Bob: Hi Alice!'' \<noteq> None
   \<and> length (turns (parseWhatsApp ref_host ex_multiline None)) = 2
   \<and> turn_text (turns (parseWhatsApp ref_host ex_multiline None) ! 0) =
       ''Hello'' @ [CHR 0x0A] @ ''second line'' @ [CHR 0x0A] @ ''third line''"
proof -
  have l: "nonblank_lines ex_multiline =
     [''preamble''] @ ''1/29/24, 2:30 PM - Alice: Hello'' # [''second line'', ''third line'']
       @ [''1/29/24, 2:31 PM - Bob: Hi Alice!'']"
    by code_simp
  have p: "parseLine ''1/29/24, 2:30 PM - Alice: Hello'' =
       Some \<lparr>pl_date = ''1/29/24'', pl_time = ''2:30 PM'', pl_speaker = ''Alice'', pl_text = ''Hello''\<rparr>"
    by code_simp
  have n: "parseLine ''preamble'' = None" "parseLine ''second line'' = None"
    "parseLine ''third line'' = None"
    by code_simp+
  have q: "parseLine ''1/29/24, 2:31 PM - Bob: Hi Alice!'' \<noteq> None"
    by code_simp
  have c: "\<forall>l\<in>set [''second line'', ''third line'']. parseLine l = None"
    using n by simp
  have r: "[''1/29/24, 2:31 PM - Bob: Hi Alice!''] = [] \<or>
           parseLine (hd [''1/29/24, 2:31 PM - Bob: Hi Alice!'']) \<noteq> None"
    using q by simp
  have tr: "trim (joined ''Hello'' [''second line'', ''third line'']) =
       ''Hello'' @ [CHR 0x0A] @ ''second line'' @ [CHR 0x0A] @ ''third line''"
    by code_simp
  show ?thesis
    using whatsapp_continuation [OF l p c r, of ref_host None] l p n q tr
    by (simp add: is_header_def)
qed

text \<open>
  Counterexample to C7 as stated: a header followed by a blank line and a line with
  trailing spaces, which match no pattern, gives a turn whose text has one line break
  and not the trailing spaces.
\<close>

theorem whatsapp_continuation_counterexample:
  "parseLine [] = None \<and> parseLine ''there  '' = None
   \<and> map turn_text (turns (parseWhatsApp ref_host
         (''1/29/24, 2:30 PM - Alice: Hi'' @ [CHR 0x0A] @ [CHR 0x0A] @ ''there  '') None)) =
       [''Hi'' @ [CHR 0x0A] @ ''there'']"
  by code_simp

section \<open>Detection of WhatsApp text\<close>

lemma isJsonTranscript_JStr [simp]: "\<not> isJsonTranscript (JStr s)"
  by (simp add: isJsonTranscript_def)

lemma isChatLog_JStr [simp]: "\<not> isChatLog (JStr s)"
  by (simp add: isChatLog_def)

lemma detectFormat_JStr:
  "detectFormat (JStr s) = (if isSrtText s then Srt else if isWhatsAppText s then WhatsApp else Unknown)"
  by (simp add: detectFormat_def)

text \<open>
  C8 (amended). A string that is not SRT text is detected as whatsapp exactly when it
  has at least two non-blank lines and at least 30% of the first up to 10 of them match
  a line pattern.
\<close>

theorem detect_whatsapp_iff:
  assumes "\<not> isSrtText s"
  shows "detectFormat (JStr s) = WhatsApp \<longleftrightarrow>
     2 \<le> length (nonblank_lines s) \<and>
     3 * min (length (nonblank_lines s)) 10
       \<le> 10 * length (filter (\<lambda>l. parseLine l \<noteq> None) (take 10 (nonblank_lines s)))"
  using assms by (auto simp: detectFormat_JStr isWhatsAppText_def Let_def min_def)

theorem detect_whatsapp_iff_witness:
  "\<not> isSrtText ex_chat
   \<and> 2 \<le> length (nonblank_lines ex_chat)
   \<and> 3 * min (length (nonblank_lines ex_chat)) 10
       \<le> 10 * length (filter (\<lambda>l. parseLine l \<noteq> None) (take 10 (nonblank_lines ex_chat)))
   \<and> detectFormat (JStr ex_chat) = WhatsApp"
proof -
  have n: "\<not> isSrtText ex_chat" by code_simp
  have l: "nonblank_lines ex_chat =
      [''1/29/24, 2:30 PM - Alice: Hello everyone'', ''1/29/24, 2:31 PM - Bob: Hi Alice!'']"
    by code_simp
  have p: "parseLine ''1/29/24, 2:30 PM - Alice: Hello everyone'' \<noteq> None"
    "parseLine ''1/29/24, 2:31 PM - Bob: Hi Alice!'' \<noteq> None"
    by code_simp+
  show ?thesis
    using detect_whatsapp_iff [OF n] n by (simp add: l p)
qed

text \<open>
  Counterexample to C8 as stated: the only non-blank line of the input matches a line
  pattern, and the input is not detected as whatsapp.
\<close>

theorem detect_whatsapp_counterexample:
  "\<not> isSrtText ''1/29/24, 2:30 PM - Alice: Hello everyone''
   \<and> nonblank_lines ''1/29/24, 2:30 PM - Alice: Hello everyone'' =
       [''1/29/24, 2:30 PM - Alice: Hello everyone'']
   \<and> parseLine ''1/29/24, 2:30 PM - Alice: Hello everyone'' \<noteq> None
   \<and> detectFormat (JStr ''1/29/24, 2:30 PM - Alice: Hello everyone'') = Unknown"
  by code_simp

section \<open>Empty arrays\<close>

lemma isJsonTranscript_empty:
  "map_of kvs ''entries'' = Some (JArr []) \<Longrightarrow> isJsonTranscript (JObj kvs)"
  by (simp add: isJsonTranscript_def)

lemma isChatLog_empty:
  "map_of kvs ''messages'' = Some (JArr []) \<Longrightarrow> isChatLog (JObj kvs)"
  by (simp add: isChatLog_def)

lemma turns_parseJsonTranscript_empty:
  "turns (parseJsonTranscript h \<lparr>jt_title = t, entries = []\<rparr> ttl) = []"
  by (simp add: parseJsonTranscript_def map_index_def)

lemma turns_parseChatLog_empty:
  "turns (parseChatLog h \<lparr>cl_title = t, cl_channel = c, messages = []\<rparr> ttl) = []"
  by (simp add: parseChatLog_def map_index_def emitted_def sortedMessages_def js_sort_def)

text \<open>
  C10. An object whose \<open>entries\<close> member is the empty array passes the shape check
  of json-transcript, is detected as json-transcript and (its optional title being a
  string) parses to a conversation without turns; likewise an object whose
  \<open>messages\<close> member is the empty array, when it is not a json-transcript, for
  chat-log.
\<close>

theorem empty_arrays_accepted:
  "(map_of kvs ''entries'' = Some (JArr []) \<longrightarrow>
      isJsonTranscript (JObj kvs) \<and> detectFormat (JObj kvs) = JsonTranscript \<and>
      (\<forall>t. opt_string kvs ''title'' = Some t \<longrightarrow>
         parseInput h (JObj kvs) \<lparr>format = None, opt_title = ttl\<rparr> =
           Some (Success (parseJsonTranscript h \<lparr>jt_title = t, entries = []\<rparr> ttl) JsonTranscript)
         \<and> turns (parseJsonTranscript h \<lparr>jt_title = t, entries = []\<rparr> ttl) = []))
   \<and> (map_of kvs ''messages'' = Some (JArr []) \<and> \<not> isJsonTranscript (JObj kvs) \<longrightarrow>
      isChatLog (JObj kvs) \<and> detectFormat (JObj kvs) = ChatLog \<and>
      (\<forall>t c. opt_string kvs ''title'' = Some t \<and> opt_string kvs ''channel'' = Some c \<longrightarrow>
         parseInput h (JObj kvs) \<lparr>format = None, opt_title = ttl\<rparr> =
           Some (Success (parseChatLog h \<lparr>cl_title = t, cl_channel = c, messages = []\<rparr> ttl) ChatLog)
         \<and> turns (parseChatLog h \<lparr>cl_title = t, cl_channel = c, messages = []\<rparr> ttl) = []))"
proof (intro conjI impI allI)
  assume e: "map_of kvs ''entries'' = Some (JArr [])"
  show j: "isJsonTranscript (JObj kvs)" by (rule isJsonTranscript_empty [OF e])
  then show d: "detectFormat (JObj kvs) = JsonTranscript" by (simp add: detectFormat_def)
  fix t assume "opt_string kvs ''title'' = Some t"
  with e j d show "parseInput h (JObj kvs) \<lparr>format = None, opt_title = ttl\<rparr> =
      Some (Success (parseJsonTranscript h \<lparr>jt_title = t, entries = []\<rparr> ttl) JsonTranscript)"
    by (simp add: parseInput_def)
  show "turns (parseJsonTranscript h \<lparr>jt_title = t, entries = []\<rparr> ttl) = []"
    by (rule turns_parseJsonTranscript_empty)
next
  assume a: "map_of kvs ''messages'' = Some (JArr []) \<and> \<not> isJsonTranscript (JObj kvs)"
  then show c: "isChatLog (JObj kvs)" by (simp add: isChatLog_empty)
  with a show d: "detectFormat (JObj kvs) = ChatLog" by (simp add: detectFormat_def)
  fix t ch assume "opt_string kvs ''title'' = Some t \<and> opt_string kvs ''channel'' = Some ch"
  with a c d show "parseInput h (JObj kvs) \<lparr>format = None, opt_title = ttl\<rparr> =
      Some (Success (parseChatLog h \<lparr>cl_title = t, cl_channel = ch, messages = []\<rparr> ttl) ChatLog)"
    by (simp add: parseInput_def)
  show "turns (parseChatLog h \<lparr>cl_title = t, cl_channel = ch, messages = []\<rparr> ttl) = []"
    by (rule turns_parseChatLog_empty)
qed

theorem empty_arrays_accepted_witness:
  "detectFormat (JObj [(''entries'', JArr [])]) = JsonTranscript
   \<and> parseInput ref_host (JObj [(''entries'', JArr [])]) \<lparr>format = None, opt_title = None\<rparr> =
       Some (Success \<lparr>title = ''Untitled Transcript'', source = ''json-transcript'', turns = [],
                      conv_metadata = []\<rparr> JsonTranscript)
   \<and> detectFormat (JObj [(''messages'', JArr [])]) = ChatLog
   \<and> parseInput ref_host (JObj [(''messages'', JArr [])]) \<lparr>format = None, opt_title = None\<rparr> =
       Some (Success \<lparr>title = ''Untitled Chat'', source = ''chat-log'', turns = [],
                      conv_metadata = []\<rparr> ChatLog)"
proof -
  have nj: "\<not> isJsonTranscript (JObj [(''messages'', JArr [])])"
    by (simp add: isJsonTranscript_def)
  have 1: "parseJsonTranscript ref_host \<lparr>jt_title = None, entries = []\<rparr> None =
      \<lparr>title = ''Untitled Transcript'', source = ''json-transcript'', turns = [], conv_metadata = []\<rparr>"
    by (simp add: parseJsonTranscript_def map_index_def str_or_def str_or_default_def)
  have 2: "parseChatLog ref_host \<lparr>cl_title = None, cl_channel = None, messages = []\<rparr> None =
      \<lparr>title = ''Untitled Chat'', source = ''chat-log'', turns = [], conv_metadata = []\<rparr>"
    by (simp add: parseChatLog_def map_index_def str_or_def str_or_default_def emitted_def
        sortedMessages_def js_sort_def)
  show ?thesis
    using empty_arrays_accepted [of "[(''entries'', JArr [])]" ref_host None]
      empty_arrays_accepted [of "[(''messages'', JArr [])]" ref_host None] nj
    by (simp add: opt_string_def 1 2)
qed

section \<open>Turns with blank text\<close>

subsection \<open>Trimming\<close>

lemma trim_eq_Nil_iff: "trim s = [] \<longleftrightarrow> (\<forall>c\<in>set s. is_space c)"
proof
  assume "trim s = []"
  then have a: "\<forall>c\<in>set (dropWhile is_space s). is_space c"
    by (simp add: trim_def dropWhile_eq_Nil_conv)
  have "dropWhile is_space s = []"
  proof (rule ccontr)
    assume n: "dropWhile is_space s \<noteq> []"
    then have "hd (dropWhile is_space s) \<in> set (dropWhile is_space s)" by simp
    with a hd_dropWhile [OF n] show False by blast
  qed
  then show "\<forall>c\<in>set s. is_space c"
    by (simp add: dropWhile_eq_Nil_conv)
next
  assume "\<forall>c\<in>set s. is_space c"
  then show "trim s = []"
    by (auto simp: trim_def dest: set_dropWhileD)
qed

lemma trim_last: "trim s \<noteq> [] \<Longrightarrow> \<not> is_space (last (trim s))"
proof -
  assume a: "trim s \<noteq> []"
  let ?z = "dropWhile is_space (rev (dropWhile is_space s))"
  have z: "?z \<noteq> []" using a by (simp add: trim_def)
  have "last (trim s) = hd ?z"
    using z by (simp add: trim_def last_rev)
  then show ?thesis
    using hd_dropWhile [OF z] by simp
qed

lemma last_nonspace_trim: "s \<noteq> [] \<Longrightarrow> \<not> is_space (last s) \<Longrightarrow> trim (trim s) \<noteq> []"
proof -
  assume s: "s \<noteq> []" "\<not> is_space (last s)"
  then have "trim s \<noteq> []"
    using trim_eq_Nil_iff [of s] last_in_set by blast
  then have "trim s \<noteq> [] \<and> \<not> is_space (last (trim s))"
    using trim_last by blast
  then show ?thesis
    using trim_eq_Nil_iff [of "trim s"] last_in_set by blast
qed

subsection \<open>The matcher only moves forward\<close>

lemma adv_refl [simp]: "adv st st"
  by (simp add: adv_def)

lemma adv_trans: "adv a b \<Longrightarrow> adv b c \<Longrightarrow> adv a c"
  by (auto simp: adv_def)

lemma rx_rep_adv:
  assumes f: "\<And>a b. b \<in> set (f a) \<Longrightarrow> adv a b"
  shows "st' \<in> set (rx_rep f lo n st) \<Longrightarrow> adv st st'"
proof (induction n arbitrary: lo st)
  case 0
  then show ?case by (simp split: if_splits)
next
  case (Suc n)
  from Suc.prems consider
      (step) mid where "mid \<in> set (f st)" "st' \<in> set (rx_rep f (lo - 1) n mid)"
    | (stop) "st' = st"
    by (auto split: if_splits)
  then show ?case
  proof cases
    case step
    then show ?thesis using f Suc.IH adv_trans by blast
  next
    case stop
    then show ?thesis by simp
  qed
qed

lemma rx_run_adv: "st' \<in> set (rx_run r st) \<Longrightarrow> adv st st'"
proof (induction r arbitrary: st st')
  case (Cls p)
  then show ?case
    by (cases st) (auto simp: adv_def split: list.splits if_splits)
next
  case (Cat a b)
  from Cat.prems obtain mid where "mid \<in> set (rx_run a st)" "st' \<in> set (rx_run b mid)"
    by auto
  then show ?case
    using Cat.IH adv_trans by blast
next
  case (Alt a b)
  from Alt.prems have "st' \<in> set (rx_run a st) \<or> st' \<in> set (rx_run b st)"
    by simp
  then show ?case
    using Alt.IH by blast
next
  case (Rep lo hi r)
  obtain i s c where st: "st = (i, s, c)" by (cases st)
  define n where "n = (case hi of None \<Rightarrow> lo + length s | Some k \<Rightarrow> k)"
  have "st' \<in> set (rx_rep (\<lambda>a. rx_run r a) lo n st)"
    using Rep.prems by (simp add: st n_def)
  moreover have "\<And>a b. b \<in> set ((\<lambda>a. rx_run r a) a) \<Longrightarrow> adv a b"
    by (simp add: Rep.IH)
  ultimately show ?case
    by (rule rx_rep_adv [rotated])
next
  case (Grp k r)
  obtain i s c where st: "st = (i, s, c)" by (cases st)
  from Grp.prems obtain j s' c' where m: "(j, s', c') \<in> set (rx_run r (i, s, c))"
    and st': "st' = (j, s', (k, take (j - i) s) # c')"
    by (auto simp: st)
  have "adv (i, s, c) (j, s', c')" by (rule Grp.IH [OF m])
  then show ?case by (simp add: st st' adv_def)
next
  case Bol
  then show ?case by (cases st) (auto split: if_splits)
next
  case Eol
  then show ?case by (cases st) (auto split: if_splits)
next
  case Emp
  then show ?case by simp
qed

text \<open>One or more rounds of a class consume at least one unit.\<close>

lemma rx_plus_Cls_advances:
  assumes "(j, s', c') \<in> set (rx_run (rx_plus (Cls p)) (i, s, c))"
  shows "i < j"
proof -
  have m: "(j, s', c') \<in> set (rx_rep (\<lambda>st. rx_run (Cls p) st) 1 (Suc (length s)) (i, s, c))"
    using assms by (simp add: rx_plus_def)
  then obtain mid where mid: "mid \<in> set (rx_run (Cls p) (i, s, c))"
    and r: "(j, s', c') \<in> set (rx_rep (\<lambda>st. rx_run (Cls p) st) 0 (length s) mid)"
    by auto
  have "fst mid = Suc i"
    using mid by (auto split: list.splits if_splits)
  moreover have "adv mid (j, s', c')"
    using r by (rule rx_rep_adv [rotated]) (rule rx_run_adv)
  ultimately show ?thesis by (auto simp: adv_def)
qed

lemma trim_trim_nonempty: "trim s \<noteq> [] \<Longrightarrow> trim (trim s) \<noteq> []"
proof -
  assume a: "trim s \<noteq> []"
  then have "last (trim s) \<in> set (trim s)" "\<not> is_space (last (trim s))"
    using trim_last by simp_all
  then show ?thesis
    using trim_eq_Nil_iff [of "trim s"] by blast
qed

subsection \<open>What the body of a speaker pattern captures\<close>

lemma ends_in_bodyD:
  "ends_in_body T r \<Longrightarrow> tail_of T st \<Longrightarrow> st' \<in> set (rx_run r st) \<Longrightarrow> body_end T st'"
  unfolding ends_in_body_def by blast

lemma tail_of_adv: "tail_of T st \<Longrightarrow> adv st st' \<Longrightarrow> tail_of T st'"
  by (auto simp: tail_of_def adv_def)

lemma body_result:
  assumes T: "tail_of T st" and r: "st' \<in> set (rx_run rx_body st)"
  shows "body_end T st'"
proof -
  let ?g = "Grp 2 (rx_plus rx_dot_all)"
  from r obtain st1 st2 where 1: "st1 \<in> set (rx_run (rx_star rx_space) st)"
    and 2: "st2 \<in> set (rx_run ?g st1)"
    and 3: "st' \<in> set (rx_run Eol st2)"
    by (auto simp: rx_body_def rx_seq_def)
  obtain i1 s1 c1 where st1: "st1 = (i1, s1, c1)" by (cases st1)
  have T1: "tail_of T st1"
    using T rx_run_adv [OF 1] by (rule tail_of_adv)
  from 2 obtain j s2 c2 where m: "(j, s2, c2) \<in> set (rx_run (rx_plus rx_dot_all) (i1, s1, c1))"
    and st2: "st2 = (j, s2, (2, take (j - i1) s1) # c2)"
    by (auto simp: st1)
  have adv: "adv (i1, s1, c1) (j, s2, c2)"
    by (rule rx_run_adv [OF m])
  have lt: "i1 < j"
    using m unfolding rx_dot_all_def by (rule rx_plus_Cls_advances)
  from 3 have e: "s2 = []" "st' = st2"
    by (auto simp: st2 split: if_splits)
  from adv e have "j = i1 + length s1"
    by (auto simp: adv_def)
  with lt have "take (j - i1) s1 = s1" "s1 \<noteq> []"
    by auto
  with T1 show ?thesis
    by (auto simp: body_end_def e st2 st1 tail_of_def)
qed

lemma ends_in_body_base: "ends_in_body T (Cat rx_body Emp)"
  unfolding ends_in_body_def
proof (intro allI impI)
  fix st st' assume "tail_of T st" and "st' \<in> set (rx_run (Cat rx_body Emp) st)"
  then show "body_end T st'"
    using body_result [of T st st'] by simp
qed

lemma ends_in_body_Cat: "ends_in_body T r \<Longrightarrow> ends_in_body T (Cat a r)"
proof -
  assume r: "ends_in_body T r"
  show ?thesis
    unfolding ends_in_body_def
  proof (intro allI impI)
    fix st st' assume T: "tail_of T st" and m: "st' \<in> set (rx_run (Cat a r) st)"
    from m obtain mid where 1: "mid \<in> set (rx_run a st)" and 2: "st' \<in> set (rx_run r mid)"
      by auto
    have "tail_of T mid"
      using T rx_run_adv [OF 1] by (rule tail_of_adv)
    with r show "body_end T st'"
      using 2 by (rule ends_in_bodyD)
  qed
qed

lemma srt_speaker_patterns_body: "p \<in> set srt_speaker_patterns \<Longrightarrow> ends_in_body T p"
  by (auto simp: srt_speaker_patterns_def rx_seq_def intro!: ends_in_body_Cat ends_in_body_base)

lemma rx_search_run:
  "rx_search r k s = Some (i, st') \<Longrightarrow> \<exists>k' s' p. s = p @ s' \<and> st' \<in> set (rx_run r (k', s', []))"
proof (induction s arbitrary: k)
  case Nil
  then have "st' \<in> set (rx_run r (k, [], []))"
    by (auto split: list.splits)
  moreover have "([]::string) = [] @ []" by simp
  ultimately show ?case by blast
next
  case (Cons x xs)
  show ?case
  proof (cases "rx_run r (k, x # xs, [])")
    case Nil
    with Cons.prems have "rx_search r (Suc k) xs = Some (i, st')" by simp
    from Cons.IH [OF this] obtain k' s' p where "xs = p @ s'" "st' \<in> set (rx_run r (k', s', []))"
      by blast
    then have "x # xs = (x # p) @ s'" by simp
    with \<open>st' \<in> _\<close> show ?thesis by blast
  next
    case (Cons a list)
    with Cons.prems have "st' \<in> set (rx_run r (k, x # xs, []))" by auto
    moreover have "x # xs = [] @ (x # xs)" by simp
    ultimately show ?thesis by blast
  qed
qed

lemma rx_match_body:
  assumes "ends_in_body T p" and "rx_match p T = Some m"
  shows "\<exists>u q. m 2 = Some u \<and> u \<noteq> [] \<and> T = q @ u"
proof -
  from assms(2) obtain i st' where s: "rx_search p 0 T = Some (i, st')"
    and m: "m = map_of (snd (snd st'))"
    by (auto simp: rx_match_def split: prod.splits)
  from rx_search_run [OF s] obtain k' s' q where "T = q @ s'" "st' \<in> set (rx_run p (k', s', []))"
    by blast
  moreover have "tail_of T (k', s', [])"
    using \<open>T = q @ s'\<close> by (auto simp: tail_of_def)
  ultimately have "body_end T st'"
    using assms(1) ends_in_bodyD by blast
  then show ?thesis
    by (auto simp: body_end_def m)
qed

lemma extractSpeaker_pats_text:
  assumes "\<forall>p\<in>set ps. ends_in_body T p" and "T \<noteq> []" and "\<not> is_space (last T)"
  shows "trim (snd (extractSpeaker_pats ps T)) \<noteq> []"
  using assms(1)
proof (induction ps)
  case Nil
  have "last T \<in> set T" using assms(2) by simp
  then show ?case
    using assms(3) trim_eq_Nil_iff [of T] by auto
next
  case (Cons p ps)
  show ?case
  proof (cases "rx_match p T")
    case None
    then show ?thesis using Cons by simp
  next
    case (Some m)
    have "ends_in_body T p" using Cons.prems by simp
    from rx_match_body [OF this Some]
    obtain u q where u: "m 2 = Some u" "u \<noteq> []" "T = q @ u"
      by auto
    have "last u = last T" using u by simp
    then have "trim (trim u) \<noteq> []"
      using last_nonspace_trim [OF u(2)] assms(3) by simp
    then show ?thesis
      using Some u by (simp add: cap_def)
  qed
qed

lemma set_join: "l \<in> set ls \<Longrightarrow> set l \<subseteq> set (join sep ls)"
  by (induction sep ls rule: join.induct) auto

lemma nonblank_lines_nonblank: "l \<in> set (nonblank_lines s) \<Longrightarrow> trim l \<noteq> []"
  by (simp add: nonblank_lines_def)

lemma parseSrtBlock_text:
  assumes "parseSrtBlock h block = Some b"
  shows "b_text b \<noteq> [] \<and> \<not> is_space (last (b_text b))"
proof -
  let ?ls = "nonblank_lines block"
  from assms have len: "3 \<le> length ?ls" and b: "b_text b = trim (join [CHR 0x0A] (drop 2 ?ls))"
    by (auto simp: parseSrtBlock_def Let_def split: if_splits option.splits)
  have "drop 2 ?ls ! 0 = ?ls ! 2" "0 < length (drop 2 ?ls)"
    using len by simp_all
  then have mem: "?ls ! 2 \<in> set (drop 2 ?ls)"
    using nth_mem [of 0 "drop 2 ?ls"] by simp
  have "?ls ! 2 \<in> set ?ls"
    using len by simp
  then have "trim (?ls ! 2) \<noteq> []"
    by (rule nonblank_lines_nonblank)
  then obtain c where "c \<in> set (?ls ! 2)" "\<not> is_space c"
    using trim_eq_Nil_iff by blast
  then have "c \<in> set (join [CHR 0x0A] (drop 2 ?ls))"
    using set_join [OF mem] by blast
  with \<open>\<not> is_space c\<close> have "trim (join [CHR 0x0A] (drop 2 ?ls)) \<noteq> []"
    using trim_eq_Nil_iff by blast
  then show ?thesis
    using trim_last by (simp add: b)
qed

lemma srt_turn_text:
  assumes "parseSrtBlock h block = Some b"
  shows "trim (turn_text (srt_turn b n)) \<noteq> []"
proof -
  have "trim (snd (extractSpeaker_pats srt_speaker_patterns (b_text b))) \<noteq> []"
    using parseSrtBlock_text [OF assms] srt_speaker_patterns_body
    by (intro extractSpeaker_pats_text) auto
  then show ?thesis
    by (auto simp: srt_turn_def srt_extractSpeaker_def split: prod.splits)
qed

lemma set_map_index: "t \<in> set (map_index f xs) \<Longrightarrow> \<exists>i<length xs. t = f (xs ! i) i"
  by (force simp: map_index_def in_set_zip)

lemma parseSrt_text:
  assumes "t \<in> set (turns (parseSrt h s ttl))"
  shows "trim (turn_text t) \<noteq> []"
proof -
  from assms obtain i where i: "i < length (parseSrtBlocks h s)"
    and t: "t = srt_turn (parseSrtBlocks h s ! i) i"
    using set_map_index by (fastforce simp: parseSrt_def srt_turns_map_index)
  have "parseSrtBlocks h s ! i \<in> set (parseSrtBlocks h s)"
    using i by simp
  then obtain block where "parseSrtBlock h block = Some (parseSrtBlocks h s ! i)"
    by (auto simp: parseSrtBlocks_def List.map_filter_def)
  then show ?thesis
    unfolding t by (rule srt_turn_text)
qed

lemma parseChatLog_text:
  assumes "t \<in> set (turns (parseChatLog h input ttl))"
  shows "trim (turn_text t) \<noteq> []"
proof -
  from assms obtain i where i: "i < length (emitted h input)"
    and t: "t = cl_turn h (baseTimestamp h input) (emitted h input ! i) i"
    using set_map_index by (fastforce simp: turns_parseChatLog)
  have "emitted h input ! i \<in> set (emitted h input)"
    using i by simp
  then have "trim (extractText (emitted h input ! i)) \<noteq> []"
    by (simp add: emitted_def)
  then show ?thesis
    by (simp add: t cl_turn_def)
qed

lemma parseJsonTranscript_text:
  "map turn_text (turns (parseJsonTranscript h input ttl)) = map e_text (entries input)"
  by (auto simp: turns_parseJsonTranscript jt_turn_def intro!: nth_equalityI)

lemma parseLine_pats_trimmed: "parseLine_pats ps l = Some p \<Longrightarrow> \<exists>x. pl_text p = trim x"
  by (induction ps) (auto split: option.splits)

lemma set_joined: "set t \<subseteq> set (joined t ls)" "l \<in> set ls \<Longrightarrow> set l \<subseteq> set (joined t ls)"
  by (auto simp: joined_def)

lemma wa_group_text:
  assumes "nonblank_lines s = pre @ hdr # conts @ rest"
    and "parseLine hdr = Some p"
    and "\<forall>l\<in>set conts. parseLine l = None"
    and "rest = [] \<or> parseLine (hd rest) \<noteq> None"
  shows "length (filter is_header pre) < length (wa_raw_turns h (nonblank_lines s))"
    and "turn_text (turns (parseWhatsApp h s ttl) ! length (filter is_header pre)) =
           trim (joined (pl_text p) conts)"
proof -
  let ?k = "length (filter is_header pre)"
  let ?raw = "wa_raw_turns h (nonblank_lines s)"
  show k: "?k < length ?raw"
    unfolding wa_raw_length using assms(2) by (simp add: assms(1) is_header_def)
  have "?raw ! ?k = wa_turn h p (joined (pl_text p) conts) ?k"
    using wa_raw_group [OF assms(2,3,4)] assms(1) by simp
  then show "turn_text (turns (parseWhatsApp h s ttl) ! ?k) = trim (joined (pl_text p) conts)"
    using wa_rebase_fields(1) [OF k] by (simp add: parseWhatsApp_def wa_turn_def)
qed

lemma wa_group_nonblank:
  assumes "nonblank_lines s = pre @ hdr # conts @ rest"
    and "parseLine hdr = Some p"
    and "pl_text p \<noteq> [] \<or> conts \<noteq> []"
  shows "trim (joined (pl_text p) conts) \<noteq> []"
proof -
  have "\<exists>c\<in>set (joined (pl_text p) conts). \<not> is_space c"
  proof (cases "pl_text p \<noteq> []")
    case True
    obtain x where x: "pl_text p = trim x"
      using parseLine_pats_trimmed assms(2) unfolding parseLine_def by blast
    have "last (pl_text p) \<in> set (pl_text p)" "\<not> is_space (last (pl_text p))"
      using True trim_last [of x] by (simp_all add: x)
    then show ?thesis
      using set_joined(1) by blast
  next
    case False
    then obtain l where l: "l \<in> set conts"
      using assms(3) by (cases conts) auto
    then have "l \<in> set (nonblank_lines s)"
      by (simp add: assms(1))
    then have "trim l \<noteq> []"
      by (rule nonblank_lines_nonblank)
    then obtain c where "c \<in> set l" "\<not> is_space c"
      using trim_eq_Nil_iff by blast
    then show ?thesis
      using set_joined(2) [OF l] by blast
  qed
  then show ?thesis
    using trim_eq_Nil_iff by blast
qed

text \<open>
  C2 (amended). A chat log and an SRT text never give a turn whose text is blank: the
  chat-log parser drops the messages with blank text, and the body of an SRT cue is
  not blank. A JSON transcript gives one turn per entry with the text of the entry as
  it is, blank or not. In a WhatsApp text, the turn of a header line whose own text is
  not empty, or that is followed by a continuation line, has a text that is not blank.
\<close>

theorem nonblank_text:
  "(\<forall>t\<in>set (turns (parseChatLog h cinput ttl)). trim (turn_text t) \<noteq> [])
   \<and> (\<forall>t\<in>set (turns (parseSrt h s ttl)). trim (turn_text t) \<noteq> [])
   \<and> map turn_text (turns (parseJsonTranscript h jinput ttl)) = map e_text (entries jinput)
   \<and> (nonblank_lines w = pre @ hdr # conts @ rest \<and> parseLine hdr = Some p \<and>
        (\<forall>l\<in>set conts. parseLine l = None) \<and> (rest = [] \<or> parseLine (hd rest) \<noteq> None) \<and>
        (pl_text p \<noteq> [] \<or> conts \<noteq> []) \<longrightarrow>
        trim (turn_text (turns (parseWhatsApp h w ttl) ! length (filter is_header pre))) \<noteq> [])"
proof (intro conjI ballI impI)
  fix t assume "t \<in> set (turns (parseChatLog h cinput ttl))"
  then show "trim (turn_text t) \<noteq> []" by (rule parseChatLog_text)
next
  fix t assume "t \<in> set (turns (parseSrt h s ttl))"
  then show "trim (turn_text t) \<noteq> []" by (rule parseSrt_text)
next
  show "map turn_text (turns (parseJsonTranscript h jinput ttl)) = map e_text (entries jinput)"
    by (rule parseJsonTranscript_text)
next
  assume a: "nonblank_lines w = pre @ hdr # conts @ rest \<and> parseLine hdr = Some p \<and>
        (\<forall>l\<in>set conts. parseLine l = None) \<and> (rest = [] \<or> parseLine (hd rest) \<noteq> None) \<and>
        (pl_text p \<noteq> [] \<or> conts \<noteq> [])"
  then have a1: "nonblank_lines w = pre @ hdr # conts @ rest" and a2: "parseLine hdr = Some p"
    and a3: "\<forall>l\<in>set conts. parseLine l = None"
    and a4: "rest = [] \<or> parseLine (hd rest) \<noteq> None"
    and a5: "pl_text p \<noteq> [] \<or> conts \<noteq> []"
    by blast+
  have "turn_text (turns (parseWhatsApp h w ttl) ! length (filter is_header pre)) =
      trim (joined (pl_text p) conts)"
    by (rule wa_group_text(2) [OF a1 a2 a3 a4])
  moreover have "trim (joined (pl_text p) conts) \<noteq> []"
    by (rule wa_group_nonblank [OF a1 a2 a5])
  ultimately show "trim (turn_text (turns (parseWhatsApp h w ttl) ! length (filter is_header pre))) \<noteq> []"
    using trim_trim_nonempty by simp
qed

theorem nonblank_text_witness:
  "map turn_text (turns (parseChatLog ref_host (ex_log [ex_msg ''100'' [], ex_msg ''200'' ''Hey!'']) None))
     = [''Hey!'']
   \<and> trim ''Hey!'' \<noteq> []
   \<and> map turn_text (turns (parseSrt ref_host ex_srt None)) = [''Hello everyone'']
   \<and> trim ''Hello everyone'' \<noteq> []"
proof -
  let ?c = "turns (parseChatLog ref_host (ex_log [ex_msg ''100'' [], ex_msg ''200'' ''Hey!'']) None)"
  let ?s = "turns (parseSrt ref_host ex_srt None)"
  have c: "map turn_text ?c = [''Hey!'']"
    by code_simp
  have s: "map turn_text ?s = [''Hello everyone'']"
    by code_simp
  have "\<forall>x\<in>set (map turn_text ?c). trim x \<noteq> []" "\<forall>x\<in>set (map turn_text ?s). trim x \<noteq> []"
    using nonblank_text [of ref_host "ex_log [ex_msg ''100'' [], ex_msg ''200'' ''Hey!'']" None ex_srt]
    by simp_all
  then show ?thesis
    by (simp add: c s)
qed

text \<open>
  Counterexample to C2 as stated: a JSON transcript whose one entry has the empty
  text parses to one turn with the empty text.
\<close>

theorem nonblank_text_counterexample:
  "parseInput ref_host ex_blank_entry no_options =
     Some (Success
       \<lparr>title = ''Untitled Transcript'', source = ''json-transcript'',
        turns = [\<lparr>speaker = ''Alice'', turn_text = [], startMs = None, endMs = None,
                   turnIndex = 0, metadata = []\<rparr>],
        conv_metadata = []\<rparr> JsonTranscript)
   \<and> trim [] = []"
  by code_simp

text \<open>A WhatsApp header line whose text is a single space gives a turn with the empty
  text.\<close>

lemma whatsapp_blank_header:
  "map turn_text (turns (parseWhatsApp ref_host ''1/29/24, 2:30 PM - Alice: '' None)) = [[]]"
  by code_simp

end
